theory Spec2Isabelle
  imports Main
begin

section \<open>Python values and exceptions\<close>

text \<open>
  The debug API layer (\<^verbatim>\<open>api_lib/debug/debug.py\<close>) is Python 2 code. Strings are
  modelled as byte strings (\<open>string\<close>), exceptions as values of a sum type.
\<close>

datatype py_error =
    ValueError | IndexError | AttributeError | TypeError | ReError | NoEndpointError
  | HttpError | NotModelled

text \<open>\<^verbatim>\<open>c.isdigit()\<close> on a one-character byte string.\<close>

definition isdigit :: "char \<Rightarrow> bool" where
  "isdigit c = (c \<in> set ''0123456789'')"

text \<open>\<^verbatim>\<open>'{0}'.format(i)\<close> for a list index \<open>i\<close>: its decimal numeral.\<close>

definition digit_char :: "nat \<Rightarrow> char" where
  "digit_char d = ''0123456789'' ! d"

fun str_of_nat :: "nat \<Rightarrow> string" where
  "str_of_nat n =
     (if n < 10 then [digit_char n]
      else str_of_nat (n div 10) @ [digit_char (n mod 10)])"

declare str_of_nat.simps [simp del]

text \<open>\<^verbatim>\<open>xs.index(x)\<close>, called only where \<^verbatim>\<open>x in xs\<close> holds: the first position.\<close>

fun index_of :: "'a list \<Rightarrow> 'a \<Rightarrow> nat" where
  "index_of [] x = 0"
| "index_of (y # ys) x = (if x = y then 0 else Suc (index_of ys x))"

section \<open>SplitLogExpressions\<close>

text \<open>The local variables of the loop of \<^verbatim>\<open>SplitLogExpressions\<close>.\<close>

record split_state =
  expressions :: "string list"
  log_format :: string
  current_expression :: string
  brace_count :: int
  need_separator :: bool

definition split_init :: split_state where
  "split_init = \<lparr>expressions = [], log_format = [], current_expression = [],
     brace_count = 0, need_separator = False\<rparr>"

text \<open>One iteration of \<^verbatim>\<open>for c in format_string\<close>.\<close>

definition split_step :: "split_state \<Rightarrow> char \<Rightarrow> split_state" where
  "split_step st0 c =
     (let st1 = (if need_separator st0 \<and> isdigit c
                 then st0\<lparr>log_format := log_format st0 @ '' ''\<rparr> else st0);
          st = st1\<lparr>need_separator := False\<rparr>
      in if c = CHR ''{'' then
           (if brace_count st \<noteq> 0
            then st\<lparr>current_expression := current_expression st @ [c],
                     brace_count := brace_count st + 1\<rparr>
            else st\<lparr>current_expression := [], brace_count := brace_count st + 1\<rparr>)
         else if brace_count st \<noteq> 0 then
           (if c \<noteq> CHR ''}'' then st\<lparr>current_expression := current_expression st @ [c]\<rparr>
            else if brace_count st - 1 = 0 then
              (if current_expression st \<in> set (expressions st)
               then st\<lparr>brace_count := 0,
                        log_format := log_format st @ ''$'' @
                          str_of_nat (index_of (expressions st) (current_expression st)),
                        need_separator := True\<rparr>
               else st\<lparr>brace_count := 0,
                        expressions := expressions st @ [current_expression st],
                        log_format := log_format st @ ''$'' @
                          str_of_nat (length (expressions st)),
                        need_separator := True\<rparr>)
            else st\<lparr>brace_count := brace_count st - 1,
                     current_expression := current_expression st @ [c]\<rparr>)
         else st\<lparr>log_format := log_format st @ [c]\<rparr>)"

definition SplitLogExpressions :: "string \<Rightarrow> py_error + (string \<times> string list)" where
  "SplitLogExpressions format_string =
     (let st = foldl split_step split_init format_string
      in if brace_count st \<noteq> 0 then Inl ValueError
         else Inr (log_format st, expressions st))"

section \<open>Brace nesting of a format string\<close>

text \<open>
  The nesting depth after reading a string, as the specification describes it: an
  opening brace goes one level down, a closing brace one level up, and a closing brace
  at the top level changes nothing. A top-level opening brace is unclosed when the depth
  never returns to zero after it.
\<close>

definition depth_step :: "nat \<Rightarrow> char \<Rightarrow> nat" where
  "depth_step d c =
     (if c = CHR ''{'' then Suc d
      else if c = CHR ''}'' then (if d = 0 then 0 else d - 1)
      else d)"

definition brace_depth :: "string \<Rightarrow> nat" where
  "brace_depth s = foldl depth_step 0 s"

definition unclosed_brace :: "string \<Rightarrow> bool" where
  "unclosed_brace s =
     (\<exists>i < length s. s ! i = CHR ''{'' \<and> brace_depth (take i s) = 0 \<and>
        (\<forall>j. i < j \<and> j \<le> length s \<longrightarrow> brace_depth (take j s) \<noteq> 0))"

section \<open>Format strings as the specification reads them\<close>

text \<open>
  The specification describes a format string as literal text with expressions in it:
  a substring delimited by a top-level pair of braces is an expression, whose text
  (nested braces included) is taken as it is; everything else is copied. \<open>parse_items\<close>
  reads a string that way, independently of the loop of \<^verbatim>\<open>SplitLogExpressions\<close>:
  \<open>take_expr d acc cs\<close> reads the rest of an expression at nesting depth \<open>d\<close> and
  returns its text and what follows its closing brace. A string with an unclosed
  top-level brace has no reading.
\<close>

datatype item = Lit char | Expr string

fun take_expr :: "nat \<Rightarrow> string \<Rightarrow> string \<Rightarrow> (string \<times> string) option" where
  "take_expr d acc [] = None"
| "take_expr d acc (c # cs) =
     (if c = CHR ''{'' then take_expr (Suc d) (acc @ [c]) cs
      else if c = CHR ''}'' then
        (case d of 0 \<Rightarrow> Some (acc, cs) | Suc d' \<Rightarrow> take_expr d' (acc @ [c]) cs)
      else take_expr d (acc @ [c]) cs)"

lemma take_expr_shorter: "take_expr d acc cs = Some (t, rest) \<Longrightarrow> length rest < length cs"
  by (induction cs arbitrary: d acc) (fastforce split: if_splits nat.splits)+

function parse_items :: "string \<Rightarrow> item list option" where
  "parse_items [] = Some []"
| "parse_items (c # cs) =
     (if c = CHR ''{'' then
        (case take_expr 0 [] cs of
           None \<Rightarrow> None
         | Some (t, rest) \<Rightarrow> map_option ((#) (Expr t)) (parse_items rest))
      else map_option ((#) (Lit c)) (parse_items cs))"
  by pat_completeness auto
termination
  by (relation "measure length") (auto dest: take_expr_shorter)

text \<open>The string an item list was read from.\<close>

fun source_form :: "item list \<Rightarrow> string" where
  "source_form [] = []"
| "source_form (Lit c # its) = c # source_form its"
| "source_form (Expr t # its) = ''{'' @ t @ ''}'' @ source_form its"

text \<open>The expression texts, one per occurrence, in the order they appear.\<close>

fun exprs_of :: "item list \<Rightarrow> string list" where
  "exprs_of [] = []"
| "exprs_of (Lit c # its) = exprs_of its"
| "exprs_of (Expr t # its) = t # exprs_of its"

text \<open>Deduplicated, ordered by first appearance: an element stays where it first
  occurs and its later copies are dropped.\<close>

function dedup_first :: "'a list \<Rightarrow> 'a list" where
  "dedup_first [] = []"
| "dedup_first (x # xs) = x # dedup_first (removeAll x xs)"
  by pat_completeness auto
termination
  by (relation "measure length") (auto simp: less_Suc_eq_le length_removeAll_less_eq)

text \<open>
  The encoded format the specification asks for: literal text copied, each expression
  replaced by \<^verbatim>\<open>$\<close> and its index in the expression list, and one space after that
  token when the next character of the input is a digit.
\<close>

fun separator :: "item list \<Rightarrow> string" where
  "separator (Lit c # its) = (if isdigit c then '' '' else [])"
| "separator its = []"

fun encode :: "string list \<Rightarrow> item list \<Rightarrow> string" where
  "encode xs [] = []"
| "encode xs (Lit c # its) = c # encode xs its"
| "encode xs (Expr t # its) =
     ''$'' @ str_of_nat (index_of xs t) @ separator its @ encode xs its"

text \<open>
  A format string has a literal token when a \<^verbatim>\<open>$\<close> outside the braces is followed
  at once by a digit outside the braces: text that reads as \<^verbatim>\<open>$N\<close> although no
  expression was replaced there.
\<close>

fun next_is_digit :: "item list \<Rightarrow> bool" where
  "next_is_digit (Lit c # its) = isdigit c"
| "next_is_digit its = False"

fun literal_token_free :: "item list \<Rightarrow> bool" where
  "literal_token_free [] = True"
| "literal_token_free (Lit c # its) =
     (\<not> (c = CHR ''$'' \<and> next_is_digit its) \<and> literal_token_free its)"
| "literal_token_free (Expr t # its) = literal_token_free its"

text \<open>The source form with the separator spaces of the encoding left in.\<close>

fun merged_form :: "item list \<Rightarrow> string" where
  "merged_form [] = []"
| "merged_form (Lit c # its) = c # merged_form its"
| "merged_form (Expr t # its) = ''{'' @ t @ ''}'' @ separator its @ merged_form its"

section \<open>MergeLogExpressions\<close>

text \<open>
  \<^verbatim>\<open>re.sub(r'\$([0-9]+)', r'{{{\1}}}', log_format).format(*expressions)\<close>.
  The regular expression is matched as \<^verbatim>\<open>re\<close> does it: the leftmost match first, the
  digit run taken as long as it goes, the scan resumed behind the match. \<open>segments\<close>
  splits a string into the matched tokens (with their digits) and the characters
  between them.
\<close>

datatype segment = Text char | Token string

function segments :: "string \<Rightarrow> segment list" where
  "segments [] = []"
| "segments (c # cs) =
     (if c = CHR ''$'' \<and> takeWhile isdigit cs \<noteq> []
      then Token (takeWhile isdigit cs) # segments (dropWhile isdigit cs)
      else Text c # segments cs)"
  by pat_completeness auto
termination
  by (relation "measure length") (auto simp: less_Suc_eq_le length_dropWhile_le)

text \<open>The number a digit string denotes.\<close>

definition digit_val :: "char \<Rightarrow> nat" where
  "digit_val c = index_of ''0123456789'' c"

definition nat_of_digits :: "string \<Rightarrow> nat" where
  "nat_of_digits ds = foldl (\<lambda>n c. 10 * n + digit_val c) 0 ds"

text \<open>The indices \<open>N\<close> of the \<^verbatim>\<open>$N\<close> tokens of a format, in order.\<close>

fun token_indices_of :: "segment list \<Rightarrow> nat list" where
  "token_indices_of [] = []"
| "token_indices_of (Text c # segs) = token_indices_of segs"
| "token_indices_of (Token ds # segs) = nat_of_digits ds # token_indices_of segs"

definition token_indices :: "string \<Rightarrow> nat list" where
  "token_indices s = token_indices_of (segments s)"

text \<open>The replacement template \<^verbatim>\<open>{{{\1}}}\<close>.\<close>

fun replace_segment :: "segment \<Rightarrow> string" where
  "replace_segment (Text c) = [c]"
| "replace_segment (Token ds) = ''{{{'' @ ds @ ''}}}''"

definition re_sub_tokens :: "string \<Rightarrow> string" where
  "re_sub_tokens s = concat (map replace_segment (segments s))"

text \<open>
  \<^verbatim>\<open>str.format\<close> with positional arguments only, as CPython's \<^verbatim>\<open>MarkupIterator\<close>
  reads the format: a doubled brace is a literal brace; a single closing brace raises
  \<^verbatim>\<open>ValueError\<close>; a single opening brace starts a replacement field that runs to the
  matching closing brace (nested braces counted), and raises \<^verbatim>\<open>ValueError\<close> when
  there is none. A field that is a decimal number selects that argument:
  \<^verbatim>\<open>IndexError\<close> when there is no such argument, \<^verbatim>\<open>ValueError\<close> for a number beyond
  \<^verbatim>\<open>PY_SSIZE_T_MAX\<close> (here that of a 64-bit build). Fields of any other shape
  (automatic numbering, names, attribute and index lookups, conversions, format
  specifications) are outside this model: \<open>NotModelled\<close> is no exception of Python,
  and no theorem below counts it as one.
\<close>

definition PY_SSIZE_T_MAX :: nat where
  "PY_SSIZE_T_MAX = 2 ^ 63 - 1"

definition format_field :: "string \<Rightarrow> string list \<Rightarrow> py_error + string" where
  "format_field f args =
     (if f \<noteq> [] \<and> list_all isdigit f then
        (let n = nat_of_digits f
         in if n < length args then Inr (args ! n)
            else if PY_SSIZE_T_MAX < n then Inl ValueError
            else Inl IndexError)
      else Inl NotModelled)"

fun split_field :: "nat \<Rightarrow> string \<Rightarrow> string \<Rightarrow> (string \<times> string) option" where
  "split_field n acc [] = None"
| "split_field n acc (c # cs) =
     (if c = CHR ''{'' then split_field (Suc n) (acc @ [c]) cs
      else if c = CHR ''}'' then
        (if n \<le> 1 then Some (acc, cs) else split_field (n - 1) (acc @ [c]) cs)
      else split_field n (acc @ [c]) cs)"

lemma split_field_shorter:
  "split_field n acc cs = Some (f, rest) \<Longrightarrow> length rest < length cs"
  by (induction cs arbitrary: n acc) (fastforce split: if_splits)+

function format_str :: "string \<Rightarrow> string list \<Rightarrow> py_error + string" where
  "format_str [] args = Inr []"
| "format_str (c # cs) args =
     (if c = CHR ''}'' then
        (case cs of
           [] \<Rightarrow> Inl ValueError
         | d # r \<Rightarrow>
             if d = CHR ''}'' then map_sum id ((#) c) (format_str r args)
             else Inl ValueError)
      else if c = CHR ''{'' then
        (case cs of
           [] \<Rightarrow> Inl ValueError
         | d # r \<Rightarrow>
             if d = CHR ''{'' then map_sum id ((#) c) (format_str r args)
             else (case split_field 1 [] cs of
                     None \<Rightarrow> Inl ValueError
                   | Some (f, rest) \<Rightarrow>
                       (case format_field f args of
                          Inl e \<Rightarrow> Inl e
                        | Inr v \<Rightarrow> map_sum id ((@) v) (format_str rest args))))
      else map_sum id ((#) c) (format_str cs args))"
  by pat_completeness auto
termination
  by (relation "measure (\<lambda>(s, args). length s)")
     (auto dest!: split_field_shorter simp del: split_field.simps)

definition MergeLogExpressions :: "string \<Rightarrow> string list \<Rightarrow> py_error + string" where
  "MergeLogExpressions fmt exprs = format_str (re_sub_tokens fmt) exprs"

section \<open>Auxiliary definitions of the proofs\<close>

text \<open>
  \<open>finish\<close> is the state of the loop after the closing brace of a top-level
  expression; \<open>accum\<close> and \<open>render\<close> follow the loop in building the expression list
  and the format; \<open>seg_of\<close> is the token structure of an encoded format, and
  \<open>subst_segments\<close> what \<^verbatim>\<open>format\<close> makes of it.
\<close>

definition add_expr :: "string list \<Rightarrow> string \<Rightarrow> string list" where
  "add_expr xs t = (if t \<in> set xs then xs else xs @ [t])"

definition finish :: "split_state \<Rightarrow> string \<Rightarrow> split_state" where
  "finish st t = st\<lparr>current_expression := t, brace_count := 0,
      expressions := add_expr (expressions st) t,
      log_format := log_format st @ ''$'' @ str_of_nat (index_of (add_expr (expressions st) t) t),
      need_separator := True\<rparr>"

fun accum :: "string list \<Rightarrow> string list \<Rightarrow> string list" where
  "accum xs [] = xs"
| "accum xs (t # ts) = accum (add_expr xs t) ts"

fun render :: "string list \<Rightarrow> item list \<Rightarrow> string" where
  "render xs [] = []"
| "render xs (Lit c # its) = c # render xs its"
| "render xs (Expr t # its) =
     ''$'' @ str_of_nat (index_of (add_expr xs t) t) @ separator its @ render (add_expr xs t) its"

definition starts_digit :: "string \<Rightarrow> bool" where
  "starts_digit s = (case s of [] \<Rightarrow> False | c # _ \<Rightarrow> isdigit c)"

fun seg_of :: "string list \<Rightarrow> item list \<Rightarrow> segment list" where
  "seg_of xs [] = []"
| "seg_of xs (Lit c # its) = Text c # seg_of xs its"
| "seg_of xs (Expr t # its) =
     Token (str_of_nat (index_of xs t)) # map Text (separator its) @ seg_of xs its"

fun seg_ok :: "segment \<Rightarrow> bool" where
  "seg_ok (Text c) = (c \<noteq> CHR ''{'' \<and> c \<noteq> CHR ''}'')"
| "seg_ok (Token ds) = (ds \<noteq> [] \<and> list_all isdigit ds)"

fun subst_segments :: "string list \<Rightarrow> segment list \<Rightarrow> py_error + string" where
  "subst_segments args [] = Inr []"
| "subst_segments args (Text c # segs) = map_sum id ((#) c) (subst_segments args segs)"
| "subst_segments args (Token ds # segs) =
     (case format_field ds args of
        Inl e \<Rightarrow> Inl e
      | Inr v \<Rightarrow> map_sum id (\<lambda>s. ''{'' @ v @ ''}'' @ s) (subst_segments args segs))"

section \<open>Debuggees and their resolution\<close>

text \<open>
  The attributes of a \<^verbatim>\<open>Debuggee\<close> object that the resolver reads. \<^verbatim>\<open>labels\<close> is the
  dictionary built from the message's label list. \<^verbatim>\<open>description\<close> is copied from the
  message field of that name, which is \<^verbatim>\<open>None\<close> when the message has no description.
  \<^verbatim>\<open>target_id\<close> is the identifier the service gave the debuggee, a string.
\<close>

record debuggee =
  project_number :: int
  project_id :: string
  agent_version :: string
  description :: "string option"
  target_id :: string
  is_disabled :: bool
  is_inactive :: bool
  target_uniquifier :: string
  labels :: "string \<rightharpoonup> string"

definition DEFAULT_MODULE :: string where
  "DEFAULT_MODULE = ''default''"

definition DEFAULT_VERSION :: string where
  "DEFAULT_VERSION = ''default''"

text \<open>Truth value of an optional string: \<^verbatim>\<open>None\<close> and the empty string are false.\<close>

fun truthy :: "string option \<Rightarrow> bool" where
  "truthy None = False"
| "truthy (Some s) = (s \<noteq> [])"

text \<open>The properties \<^verbatim>\<open>module\<close>, \<^verbatim>\<open>version\<close>, \<^verbatim>\<open>minorversion\<close> and \<^verbatim>\<open>name\<close>.\<close>

definition module :: "debuggee \<Rightarrow> string option" where
  "module d = labels d ''module''"

definition version :: "debuggee \<Rightarrow> string option" where
  "version d = labels d ''version''"

definition minorversion :: "debuggee \<Rightarrow> string option" where
  "minorversion d = labels d ''minorversion''"

text \<open>\<^verbatim>\<open>x or default\<close> for an optional string.\<close>

definition or_default :: "string option \<Rightarrow> string \<Rightarrow> string" where
  "or_default x dflt = (case x of None \<Rightarrow> dflt | Some s \<Rightarrow> if s = [] then dflt else s)"

definition name :: "debuggee \<Rightarrow> string" where
  "name d =
     (if truthy (module d) \<or> truthy (version d) \<or> truthy (minorversion d)
      then or_default (module d) DEFAULT_MODULE @ ''-'' @ or_default (version d) DEFAULT_VERSION
      else target_id d)"

text \<open>
  \<^verbatim>\<open>int(s)\<close> for a byte string, base 10: surrounding whitespace is dropped, one sign is
  allowed, and what remains must be a non-empty run of digits; anything else raises
  \<^verbatim>\<open>ValueError\<close>.
\<close>

definition isspace :: "char \<Rightarrow> bool" where
  "isspace c = (c \<in> {CHR '' '', CHR 0x09, CHR 0x0A, CHR 0x0B, CHR 0x0C, CHR 0x0D})"

definition strip :: "string \<Rightarrow> string" where
  "strip s = rev (dropWhile isspace (rev (dropWhile isspace s)))"

definition int_of_digits :: "string \<Rightarrow> py_error + int" where
  "int_of_digits ds =
     (if ds \<noteq> [] \<and> list_all isdigit ds then Inr (int (nat_of_digits ds)) else Inl ValueError)"

definition py_int :: "string \<Rightarrow> py_error + int" where
  "py_int s =
     (case strip s of
        [] \<Rightarrow> Inl ValueError
      | c # cs \<Rightarrow>
          if c = CHR ''-'' then map_sum id uminus (int_of_digits cs)
          else if c = CHR ''+'' then int_of_digits cs
          else int_of_digits (c # cs))"

text \<open>
  The loop of \<^verbatim>\<open>_FindLatestMinorVersion\<close>, with its local variables \<^verbatim>\<open>best\<close>,
  \<^verbatim>\<open>best_version\<close> and \<^verbatim>\<open>name\<close> (here \<open>nm\<close>).
\<close>

fun latest_loop ::
  "debuggee option \<Rightarrow> int option \<Rightarrow> string option \<Rightarrow> debuggee list \<Rightarrow>
   py_error + debuggee option" where
  "latest_loop best best_version nm [] = Inr best"
| "latest_loop best best_version nm (d # ds) =
     (if truthy nm \<and> nm \<noteq> Some (name d) then Inr None
      else
        let nm' = (if \<not> truthy nm then Some (name d) else nm) in
        case labels d ''minorversion'' of
          None \<Rightarrow> Inr None
        | Some v \<Rightarrow>
            if v = [] then Inr None
            else (case py_int v of
                    Inl e \<Rightarrow> Inl e
                  | Inr minor_version \<Rightarrow>
                      if best_version = None \<or> best_version = Some 0 \<or>
                         the best_version < minor_version
                      then latest_loop (Some d) (Some minor_version) nm' ds
                      else latest_loop best best_version nm' ds))"

definition FindLatestMinorVersion :: "debuggee list \<Rightarrow> py_error + debuggee option" where
  "FindLatestMinorVersion debuggees =
     (if debuggees = [] then Inr None else latest_loop None None None debuggees)"

text \<open>
  The errors of the resolver: \<^verbatim>\<open>NoDebuggeeError(pattern)\<close>,
  \<^verbatim>\<open>MultipleDebuggeesError(pattern, debuggees)\<close>, and any Python exception that
  passes through.
\<close>

datatype resolve_error =
    NoDebuggeeError "string option"
  | MultipleDebuggeesError "string option" "debuggee list"
  | PyError py_error

text \<open>
  \<^verbatim>\<open>Debugger.DefaultDebuggee\<close>, as a function of the list that \<^verbatim>\<open>ListDebuggees\<close>
  returned. A \<^verbatim>\<open>Debuggee\<close> object is always true, so \<^verbatim>\<open>if latest\<close> asks whether the
  helper returned one.
\<close>

definition DefaultDebuggee :: "debuggee list \<Rightarrow> resolve_error + debuggee" where
  "DefaultDebuggee debuggees =
     (if length debuggees = 1 then Inr (debuggees ! 0)
      else if debuggees = [] then Inl (NoDebuggeeError None)
      else case FindLatestMinorVersion debuggees of
        Inl e \<Rightarrow> Inl (PyError e)
      | Inr (Some latest) \<Rightarrow> Inr latest
      | Inr None \<Rightarrow>
          let by_module = filter (\<lambda>d. \<not> truthy (module d)) debuggees in
          if by_module = [] then Inl (MultipleDebuggeesError None debuggees)
          else if length by_module = 1 then Inr (by_module ! 0)
          else case FindLatestMinorVersion by_module of
            Inl e \<Rightarrow> Inl (PyError e)
          | Inr (Some latest) \<Rightarrow> Inr latest
          | Inr None \<Rightarrow>
              let by_version = filter (\<lambda>d. \<not> truthy (version d)) by_module in
              if length by_version = 1 then Inr (by_version ! 0)
              else if by_version = [] then Inl (MultipleDebuggeesError None debuggees)
              else case FindLatestMinorVersion by_version of
                Inl e \<Rightarrow> Inl (PyError e)
              | Inr (Some latest) \<Rightarrow> Inr latest
              | Inr None \<Rightarrow> Inl (NoDebuggeeError None))"

text \<open>
  \<^verbatim>\<open>Debugger.FindDebuggee\<close>. The regular-expression engine is a parameter:
  \<open>re_compile\<close> is \<^verbatim>\<open>re.compile\<close> (it raises \<^verbatim>\<open>re.error\<close>, here \<open>ReError\<close>, for a
  pattern that is no regular expression) and \<open>re_search r s\<close> says whether
  \<^verbatim>\<open>r.search(s)\<close> finds a match in the string \<open>s\<close>.

  \<open>search_descriptions\<close> is the comprehension
  \<^verbatim>\<open>[d for d in all_debuggees if match_re.search(d.description)]\<close>: the search raises
  \<^verbatim>\<open>TypeError\<close> at the first debuggee whose description is \<^verbatim>\<open>None\<close>.
\<close>

fun search_descriptions ::
  "('r \<Rightarrow> string \<Rightarrow> bool) \<Rightarrow> 'r \<Rightarrow> debuggee list \<Rightarrow> py_error + debuggee list" where
  "search_descriptions re_search match_re [] = Inr []"
| "search_descriptions re_search match_re (d # ds) =
     (case description d of
        None \<Rightarrow> Inl TypeError
      | Some s \<Rightarrow>
          (case search_descriptions re_search match_re ds of
             Inl e \<Rightarrow> Inl e
           | Inr rest \<Rightarrow> Inr (if re_search match_re s then d # rest else rest)))"

definition FindDebuggee ::
  "(string \<Rightarrow> py_error + 'r) \<Rightarrow> ('r \<Rightarrow> string \<Rightarrow> bool) \<Rightarrow> debuggee list \<Rightarrow>
   string option \<Rightarrow> resolve_error + debuggee" where
  "FindDebuggee re_compile re_search all_debuggees pattern =
     (if \<not> truthy pattern then DefaultDebuggee all_debuggees
      else case re_compile (the pattern) of
        Inl e \<Rightarrow> Inl (PyError e)
      | Inr match_re \<Rightarrow>
          let by_name = filter (\<lambda>d. target_id d = the pattern \<or> re_search match_re (name d))
                          all_debuggees
          in case (if by_name = []
                   then search_descriptions re_search match_re all_debuggees
                   else Inr by_name) of
               Inl e \<Rightarrow> Inl (PyError e)
             | Inr debuggees \<Rightarrow>
                 if length debuggees = 1 then Inr (debuggees ! 0)
                 else if debuggees = [] then Inl (NoDebuggeeError pattern)
                 else case FindLatestMinorVersion debuggees of
                   Inl e \<Rightarrow> Inl (PyError e)
                 | Inr None \<Rightarrow> Inl (MultipleDebuggeesError pattern debuggees)
                 | Inr (Some best) \<Rightarrow> Inr best)"

text \<open>The debuggees that have a description which the pattern matches.\<close>

definition by_description :: "('r \<Rightarrow> string \<Rightarrow> bool) \<Rightarrow> 'r \<Rightarrow> debuggee list \<Rightarrow> debuggee list" where
  "by_description re_search match_re ds =
     filter (\<lambda>d. case description d of None \<Rightarrow> False | Some s \<Rightarrow> re_search match_re s) ds"

text \<open>The integer value of a debuggee's minor-version label, where it has one.\<close>

definition minor_number :: "debuggee \<Rightarrow> int option" where
  "minor_number d =
     (case labels d ''minorversion'' of
        None \<Rightarrow> None
      | Some v \<Rightarrow> (case py_int v of Inl e \<Rightarrow> None | Inr n \<Rightarrow> Some n))"

text \<open>
  Debuggees for the examples, and the regular-expression engine on the patterns of the
  examples: \<^verbatim>\<open>a(\<close> has an unclosed group, so \<^verbatim>\<open>re.compile\<close> raises; the other patterns
  have no metacharacter, and searching for one asks whether it occurs in the string.
\<close>

definition example_debuggee :: "string \<Rightarrow> (string \<rightharpoonup> string) \<Rightarrow> debuggee" where
  "example_debuggee tid ls = \<lparr>project_number = 12345, project_id = ''my-project'',
     agent_version = ''google.com/gcloud/NNN'', description = Some (''service '' @ tid),
     target_id = tid, is_disabled = False, is_inactive = False,
     target_uniquifier = ''uniquifier-'' @ tid, labels = ls\<rparr>"

fun starts_with :: "string \<Rightarrow> string \<Rightarrow> bool" where
  "starts_with [] s = True"
| "starts_with (c # p) [] = False"
| "starts_with (c # p) (d # s) = (c = d \<and> starts_with p s)"

fun literal_search :: "string \<Rightarrow> string \<Rightarrow> bool" where
  "literal_search p [] = (p = [])"
| "literal_search p (c # s) = (starts_with p (c # s) \<or> literal_search p s)"

definition example_compile :: "string \<Rightarrow> py_error + string" where
  "example_compile p = (if p = ''a('' then Inl ReError else Inr p)"

section \<open>Breakpoints\<close>

text \<open>
  \<^verbatim>\<open>_BREAKPOINT_ID_PATTERN.match(s)\<close> for the pattern
  \<^verbatim>\<open>^[0-9a-f]{13,16}-[0-9a-f]{4}-[0-9a-f]+$\<close>. No hexadecimal digit is a dash, so each
  run of digits is the longest one; \<^verbatim>\<open>$\<close> matches at the end of the string and before
  a newline that ends it.
\<close>

definition is_hex :: "char \<Rightarrow> bool" where
  "is_hex c = (c \<in> set ''0123456789abcdef'')"

definition BREAKPOINT_ID_PATTERN :: "string \<Rightarrow> bool" where
  "BREAKPOINT_ID_PATTERN s =
     (let first = takeWhile is_hex s; rest1 = dropWhile is_hex s
      in 13 \<le> length first \<and> length first \<le> 16 \<and>
         (case rest1 of
            [] \<Rightarrow> False
          | c1 # s2 \<Rightarrow>
              c1 = CHR ''-'' \<and>
              (let second = takeWhile is_hex s2; rest2 = dropWhile is_hex s2
               in length second = 4 \<and>
                  (case rest2 of
                     [] \<Rightarrow> False
                   | c2 # s3 \<Rightarrow>
                       c2 = CHR ''-'' \<and>
                       (let third = takeWhile is_hex s3; rest3 = dropWhile is_hex s3
                        in 1 \<le> length third \<and> (rest3 = [] \<or> rest3 = [CHR 0x0A]))))))"

text \<open>
  The pattern of the specification, \<^verbatim>\<open>^[0-9a-f]{13,16}-[0-9a-f]{4}-[0-9a-f]{1,8}$\<close>,
  read the same way.
\<close>

definition claimed_id_pattern :: "string \<Rightarrow> bool" where
  "claimed_id_pattern s =
     (let first = takeWhile is_hex s; rest1 = dropWhile is_hex s
      in 13 \<le> length first \<and> length first \<le> 16 \<and>
         (case rest1 of
            [] \<Rightarrow> False
          | c1 # s2 \<Rightarrow>
              c1 = CHR ''-'' \<and>
              (let second = takeWhile is_hex s2; rest2 = dropWhile is_hex s2
               in length second = 4 \<and>
                  (case rest2 of
                     [] \<Rightarrow> False
                   | c2 # s3 \<Rightarrow>
                       c2 = CHR ''-'' \<and>
                       (let third = takeWhile is_hex s3; rest3 = dropWhile is_hex s3
                        in 1 \<le> length third \<and> length third \<le> 8 \<and>
                           (rest3 = [] \<or> rest3 = [CHR 0x0A]))))))"

text \<open>
  Modelled from the spec: the \<^verbatim>\<open>Breakpoint\<close> and \<^verbatim>\<open>SourceLocation\<close> messages. Their
  classes are generated code that is not among the sources; the fields are those of the
  specification's data model. An unset optional field is \<^verbatim>\<open>None\<close>.
\<close>

datatype action_value = CAPTURE | LOG

record source_location =
  path :: string
  line :: int

record breakpoint =
  bp_id :: string
  action :: "action_value option"
  location :: "source_location option"
  condition :: "string option"
  bp_expressions :: "string list"
  logLevel :: "string option"
  logMessageFormat :: "string option"
  isFinalState :: bool
  userEmail :: "string option"
  bp_labels :: "(string \<times> string) list option"

text \<open>The values a field of a message holds, and their truth values in Python.\<close>

datatype field_value =
    NoneValue
  | StrValue string
  | IntValue int
  | BoolValue bool
  | StrListValue "string list"
  | ActionValue action_value
  | LocationValue source_location
  | LabelsValue "(string \<times> string) list"

fun py_bool :: "field_value \<Rightarrow> bool" where
  "py_bool NoneValue = False"
| "py_bool (StrValue s) = (s \<noteq> [])"
| "py_bool (IntValue i) = (i \<noteq> 0)"
| "py_bool (BoolValue b) = b"
| "py_bool (StrListValue xs) = (xs \<noteq> [])"
| "py_bool (ActionValue a) = True"
| "py_bool (LocationValue l) = True"
| "py_bool (LabelsValue ls) = True"

definition optional :: "('a \<Rightarrow> field_value) \<Rightarrow> 'a option \<Rightarrow> field_value" where
  "optional f x = (case x of None \<Rightarrow> NoneValue | Some v \<Rightarrow> f v)"

definition all_fields :: "breakpoint \<Rightarrow> (string \<times> field_value) list" where
  "all_fields m =
     [(''action'', optional ActionValue (action m)),
      (''condition'', optional StrValue (condition m)),
      (''expressions'', StrListValue (bp_expressions m)),
      (''id'', StrValue (bp_id m)),
      (''isFinalState'', BoolValue (isFinalState m)),
      (''labels'', optional LabelsValue (bp_labels m)),
      (''location'', optional LocationValue (location m)),
      (''logLevel'', optional StrValue (logLevel m)),
      (''logMessageFormat'', optional StrValue (logMessageFormat m)),
      (''userEmail'', optional StrValue (userEmail m))]"

text \<open>
  \<^verbatim>\<open>_MessageDict\<close>: a dictionary with a second dictionary of hidden fields.
  \<open>MessageDict_init\<close> is its constructor (a field whose value is false becomes a hidden
  field), \<open>getattr\<close> its \<^verbatim>\<open>__getattr__\<close>, \<open>setitem\<close> the assignment \<^verbatim>\<open>d[k] = v\<close>.
\<close>

record message_dict =
  dict_items :: "string \<rightharpoonup> field_value"
  hidden_fields :: "string \<rightharpoonup> field_value"
  orig_type :: string

definition store_field :: "message_dict \<Rightarrow> string \<times> field_value \<Rightarrow> message_dict" where
  "store_field md f =
     (if \<not> py_bool (snd f)
      then md\<lparr>hidden_fields := (hidden_fields md)(fst f \<mapsto> snd f)\<rparr>
      else md\<lparr>dict_items := (dict_items md)(fst f \<mapsto> snd f)\<rparr>)"

definition MessageDict_init ::
  "breakpoint \<Rightarrow> (string \<rightharpoonup> field_value) \<Rightarrow> message_dict" where
  "MessageDict_init message hidden =
     foldl store_field
       \<lparr>dict_items = Map.empty, hidden_fields = hidden, orig_type = ''Breakpoint''\<rparr>
       (all_fields message)"

definition getattr :: "message_dict \<Rightarrow> string \<Rightarrow> py_error + field_value" where
  "getattr md attr =
     (case dict_items md attr of
        Some v \<Rightarrow> Inr v
      | None \<Rightarrow> (case hidden_fields md attr of
                   Some v \<Rightarrow> Inr v
                 | None \<Rightarrow> Inl AttributeError))"

definition setitem :: "message_dict \<Rightarrow> string \<Rightarrow> field_value \<Rightarrow> message_dict" where
  "setitem md k v = md\<lparr>dict_items := (dict_items md)(k \<mapsto> v)\<rparr>"

definition HideExistingField :: "message_dict \<Rightarrow> string \<Rightarrow> message_dict" where
  "HideExistingField md field_name =
     (if field_name \<in> dom (hidden_fields md) then md
      else md\<lparr>hidden_fields := (hidden_fields md)
                  (field_name \<mapsto> (case dict_items md field_name of
                                    None \<Rightarrow> NoneValue | Some v \<Rightarrow> v)),
              dict_items := (dict_items md)(field_name := None)\<rparr>)"

text \<open>Sequencing of steps that may raise.\<close>

definition bind_err :: "'e + 'a \<Rightarrow> ('a \<Rightarrow> 'e + 'b) \<Rightarrow> 'e + 'b" where
  "bind_err m f = (case m of Inl e \<Rightarrow> Inl e | Inr x \<Rightarrow> f x)"

text \<open>\<^verbatim>\<open>str(i)\<close> for an integer.\<close>

definition str_of_int :: "int \<Rightarrow> string" where
  "str_of_int i = (if i < 0 then ''-'' @ str_of_nat (nat (- i)) else str_of_nat (nat i))"

text \<open>
  \<^verbatim>\<open>DebugViewUrl\<close>; \<^verbatim>\<open>urllib.urlencode\<close> is a parameter.
\<close>

definition DebugViewUrl ::
  "((string \<times> field_value) list \<Rightarrow> string) \<Rightarrow> message_dict \<Rightarrow> py_error + string" where
  "DebugViewUrl urlencode bp =
     bind_err (getattr bp ''project_number'') (\<lambda>project_number.
     bind_err (getattr bp ''target_uniquifier'') (\<lambda>target_uniquifier.
     bind_err (getattr bp ''id'') (\<lambda>bid.
     bind_err (getattr bp ''location'') (\<lambda>loc.
       let data = [(''project'', project_number), (''dbgee'', target_uniquifier), (''bp'', bid)]
       in if py_bool loc then
            (case loc of
               LocationValue l \<Rightarrow>
                 Inr (''https://console.developers.google.com/debug/fromgcloud?'' @
                      urlencode (data @
                        (if path l \<noteq> [] then [(''fp'', StrValue (path l))] else []) @
                        (if line l \<noteq> 0 then [(''fl'', IntValue (line l))] else [])))
             | _ \<Rightarrow> Inl AttributeError)
          else Inr (''https://console.developers.google.com/debug/fromgcloud?'' @
                    urlencode data)))))"

text \<open>
  What a variable holding a breakpoint can be at run time: a message of the API, or a
  \<^verbatim>\<open>_MessageDict\<close> that \<^verbatim>\<open>AddTargetInfo\<close> made of one. \<^verbatim>\<open>AddTargetInfo\<close> builds its
  result with \<^verbatim>\<open>message.all_fields()\<close>: on a \<^verbatim>\<open>_MessageDict\<close> that is an attribute
  lookup, which raises \<^verbatim>\<open>AttributeError\<close> for a name that is no field (and a field
  value is not callable).
\<close>

datatype bp_object = Message breakpoint | Wrapped message_dict

definition AddTargetInfo ::
  "((string \<times> field_value) list \<Rightarrow> string) \<Rightarrow> debuggee \<Rightarrow> bp_object \<Rightarrow>
   py_error + message_dict" where
  "AddTargetInfo urlencode self obj =
     (case obj of
        Wrapped md \<Rightarrow> bind_err (getattr md ''all_fields'') (\<lambda>v. Inl TypeError)
      | Message message \<Rightarrow>
          let result = MessageDict_init message
                [''project_id'' \<mapsto> StrValue (project_id self),
                 ''project_number'' \<mapsto> IntValue (project_number self),
                 ''target_uniquifier'' \<mapsto> StrValue (target_uniquifier self),
                 ''target_id'' \<mapsto> StrValue (target_id self)]
          in bind_err (DebugViewUrl urlencode result) (\<lambda>url.
               let result = setitem result ''consoleViewUrl'' (StrValue url);
                   result = (case location message of
                               None \<Rightarrow> result
                             | Some l \<Rightarrow> setitem result ''location''
                                 (StrValue (path l @ '':'' @ str_of_int (line l))))
               in if truthy (logMessageFormat message) then
                    bind_err (format_str (re_sub_tokens (the (logMessageFormat message)))
                                (bp_expressions message)) (\<lambda>text.
                      Inr (HideExistingField
                             (setitem result ''logMessageFormat'' (StrValue text))
                             ''expressions''))
                  else Inr result))"

definition SNAPSHOT_TYPE :: action_value where
  "SNAPSHOT_TYPE = CAPTURE"

definition LOGPOINT_TYPE :: action_value where
  "LOGPOINT_TYPE = LOG"

text \<open>
  \<^verbatim>\<open>_FilteredDictListWithInfo\<close>: \<open>keep_type\<close> is the condition of the comprehension
  (\<^verbatim>\<open>r.action\<close> is read only when a type is given), and the elements are converted in
  order, so the first exception ends the call.
\<close>

definition obj_action :: "bp_object \<Rightarrow> py_error + field_value" where
  "obj_action r =
     (case r of
        Message m \<Rightarrow> Inr (optional ActionValue (action m))
      | Wrapped md \<Rightarrow> getattr md ''action'')"

definition keep_type :: "action_value option \<Rightarrow> bp_object \<Rightarrow> py_error + bool" where
  "keep_type restrict_to_type r =
     (case restrict_to_type of
        None \<Rightarrow> Inr True
      | Some t \<Rightarrow>
          bind_err (obj_action r) (\<lambda>a.
            Inr (a = ActionValue t \<or> (\<not> py_bool a \<and> t = SNAPSHOT_TYPE))))"

fun FilteredDictListWithInfo ::
  "((string \<times> field_value) list \<Rightarrow> string) \<Rightarrow> debuggee \<Rightarrow> bp_object list \<Rightarrow>
   action_value option \<Rightarrow> py_error + message_dict list" where
  "FilteredDictListWithInfo urlencode self [] restrict_to_type = Inr []"
| "FilteredDictListWithInfo urlencode self (r # result) restrict_to_type =
     bind_err (keep_type restrict_to_type r) (\<lambda>keep.
       if keep then
         bind_err (AddTargetInfo urlencode self r) (\<lambda>x.
           map_sum id ((#) x) (FilteredDictListWithInfo urlencode self result restrict_to_type))
       else FilteredDictListWithInfo urlencode self result restrict_to_type)"

definition MatchesIdOrRegexp ::
  "('r \<Rightarrow> string \<Rightarrow> bool) \<Rightarrow> breakpoint \<Rightarrow> string list \<Rightarrow> 'r list \<Rightarrow> bool" where
  "MatchesIdOrRegexp re_search snapshot ids patterns =
     (if bp_id snapshot \<in> set ids then True
      else case location snapshot of
        None \<Rightarrow> False
      | Some l \<Rightarrow> list_ex (\<lambda>p. re_search p (path l @ '':'' @ str_of_int (line l))) patterns)"

text \<open>
  The remote service: what \<^verbatim>\<open>List\<close> and \<^verbatim>\<open>Get\<close> answer, and whether the API clients
  have been initialised. The calls made are recorded in a list.
\<close>

datatype rpc = ListCall bool bool | GetCall string

record debug_service =
  initialized :: bool
  list_response :: "bool \<Rightarrow> bool \<Rightarrow> py_error + breakpoint list"
  get_response :: "string \<Rightarrow> py_error + breakpoint"

definition GetBreakpoint ::
  "((string \<times> field_value) list \<Rightarrow> string) \<Rightarrow> debug_service \<Rightarrow> debuggee \<Rightarrow> string \<Rightarrow>
   py_error + message_dict" where
  "GetBreakpoint urlencode svc self breakpoint_id =
     bind_err (get_response svc breakpoint_id) (\<lambda>bp. AddTargetInfo urlencode self (Message bp))"

text \<open>
  \<^verbatim>\<open>ListMatchingBreakpoints\<close>. The sets \<^verbatim>\<open>ids\<close> and \<^verbatim>\<open>missing_ids\<close> are lists without
  repetitions here (Python leaves the order of a set open; it only decides the order of
  the result). \<open>compile_all\<close> is the list of compiled patterns, \<open>fetch_missing\<close> the loop
  \<^verbatim>\<open>for i in missing_ids: result.append(self.GetBreakpoint(i))\<close>.
\<close>

fun compile_all :: "(string \<Rightarrow> py_error + 'r) \<Rightarrow> string list \<Rightarrow> py_error + 'r list" where
  "compile_all re_compile [] = Inr []"
| "compile_all re_compile (p # ps) =
     bind_err (re_compile p) (\<lambda>r. map_sum id ((#) r) (compile_all re_compile ps))"

fun fetch_missing ::
  "((string \<times> field_value) list \<Rightarrow> string) \<Rightarrow> debug_service \<Rightarrow> debuggee \<Rightarrow>
   string list \<Rightarrow> rpc list \<Rightarrow> bp_object list \<Rightarrow> rpc list \<times> (py_error + bp_object list)" where
  "fetch_missing urlencode svc self [] calls result = (calls, Inr result)"
| "fetch_missing urlencode svc self (i # missing_ids) calls result =
     (case GetBreakpoint urlencode svc self i of
        Inl e \<Rightarrow> (calls @ [GetCall i], Inl e)
      | Inr md \<Rightarrow>
          fetch_missing urlencode svc self missing_ids (calls @ [GetCall i])
            (result @ [Wrapped md]))"

definition ListMatchingBreakpoints ::
  "(string \<Rightarrow> py_error + 'r) \<Rightarrow> ('r \<Rightarrow> string \<Rightarrow> bool) \<Rightarrow>
   ((string \<times> field_value) list \<Rightarrow> string) \<Rightarrow> debug_service \<Rightarrow> debuggee \<Rightarrow>
   string list \<Rightarrow> bool \<Rightarrow> bool \<Rightarrow> action_value option \<Rightarrow>
   rpc list \<times> (py_error + message_dict list)" where
  "ListMatchingBreakpoints re_compile re_search urlencode svc self location_regexp_or_ids
     include_all_users include_inactive restrict_to_type =
     (if \<not> initialized svc then ([], Inl NoEndpointError)
      else
        let ids = remdups (filter BREAKPOINT_ID_PATTERN location_regexp_or_ids)
        in case compile_all re_compile
                  (remdups (filter (\<lambda>p. p \<notin> set ids) location_regexp_or_ids)) of
             Inl e \<Rightarrow> ([], Inl e)
           | Inr patterns \<Rightarrow>
               (case list_response svc include_all_users include_inactive of
                  Inl e \<Rightarrow> ([ListCall include_all_users include_inactive], Inl e)
                | Inr breakpoints \<Rightarrow>
                    let result = filter (\<lambda>bp. MatchesIdOrRegexp re_search bp ids patterns)
                                   breakpoints;
                        missing_ids = filter (\<lambda>i. i \<notin> set (map bp_id result)) ids
                    in case fetch_missing urlencode svc self missing_ids
                              [ListCall include_all_users include_inactive]
                              (map Message result) of
                         (calls, Inl e) \<Rightarrow> (calls, Inl e)
                       | (calls, Inr objs) \<Rightarrow>
                           (calls, FilteredDictListWithInfo urlencode self objs
                                     restrict_to_type)))"

text \<open>A breakpoint, a service and an encoder for the examples.\<close>

definition example_breakpoint :: "string \<Rightarrow> breakpoint" where
  "example_breakpoint i = \<lparr>bp_id = i, action = Some CAPTURE,
     location = Some \<lparr>path = ''main.py'', line = 10\<rparr>, condition = None,
     bp_expressions = [], logLevel = None, logMessageFormat = None, isFinalState = True,
     userEmail = None, bp_labels = None\<rparr>"

definition example_service :: "breakpoint list \<Rightarrow> debug_service" where
  "example_service listed = \<lparr>initialized = True,
     list_response = (\<lambda>include_all_users include_inactive. Inr listed),
     get_response = (\<lambda>i. Inr (example_breakpoint i))\<rparr>"

definition example_urlencode :: "(string \<times> field_value) list \<Rightarrow> string" where
  "example_urlencode data = concat (map (\<lambda>kv. fst kv @ ''=&'') data)"

section \<open>Auxiliary definitions for the breakpoint proofs\<close>

text \<open>
  The names a \<^verbatim>\<open>_MessageDict\<close> answers to, the hidden fields \<^verbatim>\<open>AddTargetInfo\<close> starts
  from, and its step that rewrites the location.
\<close>

definition keys :: "message_dict \<Rightarrow> string set" where
  "keys md = dom (dict_items md) \<union> dom (hidden_fields md)"

definition target_info :: "debuggee \<Rightarrow> (string \<rightharpoonup> field_value)" where
  "target_info self =
     [''project_id'' \<mapsto> StrValue (project_id self),
      ''project_number'' \<mapsto> IntValue (project_number self),
      ''target_uniquifier'' \<mapsto> StrValue (target_uniquifier self),
      ''target_id'' \<mapsto> StrValue (target_id self)]"

definition add_location :: "breakpoint \<Rightarrow> message_dict \<Rightarrow> message_dict" where
  "add_location message result =
     (case location message of
        None \<Rightarrow> result
      | Some l \<Rightarrow> setitem result ''location''
                  (StrValue (path l @ '':'' @ str_of_int (line l))))"

section \<open>Unbalanced braces\<close>

lemma brace_count_step:
  "brace_count st = int d \<Longrightarrow> brace_count (split_step st c) = int (depth_step d c)"
  by (auto simp: split_step_def depth_step_def Let_def)

lemma brace_count_run:
  "brace_count st = int d \<Longrightarrow>
   brace_count (foldl split_step st s) = int (foldl depth_step d s)"
  by (induction s arbitrary: st d) (auto dest: brace_count_step)

lemma brace_count_depth:
  "brace_count (foldl split_step split_init s) = int (brace_depth s)"
  by (simp add: brace_count_run brace_depth_def split_init_def)

lemma brace_depth_snoc: "brace_depth (p @ [c]) = depth_step (brace_depth p) c"
  by (simp add: brace_depth_def)

lemma depth_pos_unclosed: "brace_depth s \<noteq> 0 \<Longrightarrow> unclosed_brace s"
proof (induction s rule: rev_induct)
  case Nil
  then show ?case by (simp add: brace_depth_def)
next
  case (snoc c p)
  show ?case
  proof (cases "brace_depth p = 0")
    case True
    with snoc.prems have c: "c = CHR ''{''"
      by (auto simp: brace_depth_snoc depth_step_def split: if_splits)
    have "\<forall>j. length p < j \<and> j \<le> length (p @ [c]) \<longrightarrow> brace_depth (take j (p @ [c])) \<noteq> 0"
      using snoc.prems by (auto simp: le_Suc_eq)
    with True c show ?thesis
      unfolding unclosed_brace_def by (intro exI[of _ "length p"]) auto
  next
    case False
    then obtain i where i: "i < length p" "p ! i = CHR ''{''" "brace_depth (take i p) = 0"
      "\<forall>j. i < j \<and> j \<le> length p \<longrightarrow> brace_depth (take j p) \<noteq> 0"
      using snoc.IH unfolding unclosed_brace_def by blast
    have "\<forall>j. i < j \<and> j \<le> length (p @ [c]) \<longrightarrow> brace_depth (take j (p @ [c])) \<noteq> 0"
    proof (intro allI impI)
      fix j assume j: "i < j \<and> j \<le> length (p @ [c])"
      show "brace_depth (take j (p @ [c])) \<noteq> 0"
      proof (cases "j \<le> length p")
        case True
        with i(4) j show ?thesis by simp
      next
        case False
        with j have "j = Suc (length p)" by simp
        with snoc.prems show ?thesis by simp
      qed
    qed
    with i show ?thesis
      unfolding unclosed_brace_def by (intro exI[of _ i]) (auto simp: nth_append)
  qed
qed

lemma unclosed_depth_pos: "unclosed_brace s \<Longrightarrow> brace_depth s \<noteq> 0"
  unfolding unclosed_brace_def by (metis le_refl take_all)

lemma unclosed_iff_depth: "unclosed_brace s = (brace_depth s \<noteq> 0)"
  using depth_pos_unclosed unclosed_depth_pos by blast

lemma Split_error_iff: "(SplitLogExpressions s = Inl e) = (e = ValueError \<and> unclosed_brace s)"
  by (auto simp: SplitLogExpressions_def Let_def brace_count_depth unclosed_iff_depth)

lemma log_format_step_grows: "\<exists>r. log_format (split_step st c) = log_format st @ r"
  by (auto simp: split_step_def Let_def)

lemma log_format_run_grows: "\<exists>r. log_format (foldl split_step st s) = log_format st @ r"
proof (induction s arbitrary: st)
  case Nil
  then show ?case by simp
next
  case (Cons c s)
  obtain r1 where "log_format (split_step st c) = log_format st @ r1"
    using log_format_step_grows by blast
  moreover obtain r2 where
    "log_format (foldl split_step (split_step st c) s) = log_format (split_step st c) @ r2"
    using Cons.IH by blast
  ultimately show ?case by simp
qed

lemma expressions_step_grows: "\<exists>r. expressions (split_step st c) = expressions st @ r"
  by (auto simp: split_step_def Let_def)

lemma close_brace_top_level:
  "brace_count st = 0 \<Longrightarrow>
   split_step st CHR ''}'' = st\<lparr>log_format := log_format st @ ''}'', need_separator := False\<rparr>"
  by (simp add: split_step_def Let_def isdigit_def)

text \<open>
  Claim C8. \<^verbatim>\<open>SplitLogExpressions\<close> raises \<^verbatim>\<open>ValueError\<close> exactly when some top-level
  opening brace is never closed by the end of the input, and raises nothing else; the
  brace count never goes negative; after a balanced input, a closing brace is copied to
  the output as it is and stays there whatever follows; the empty input gives the empty
  format and no expressions.
\<close>

theorem Split_unbalanced:
  "(SplitLogExpressions s = Inl ValueError) = unclosed_brace s \<and>
   (\<forall>e. SplitLogExpressions s = Inl e \<longrightarrow> e = ValueError) \<and>
   0 \<le> brace_count (foldl split_step split_init s) \<and>
   (\<forall>enc xs. SplitLogExpressions s = Inr (enc, xs) \<longrightarrow>
      SplitLogExpressions (s @ ''}'') = Inr (enc @ ''}'', xs) \<and>
      (\<forall>q enc' xs'. SplitLogExpressions (s @ ''}'' @ q) = Inr (enc', xs') \<longrightarrow>
         (\<exists>r. enc' = enc @ ''}'' @ r))) \<and>
   SplitLogExpressions [] = Inr ([], [])"
proof (intro conjI allI impI)
  show "(SplitLogExpressions s = Inl ValueError) = unclosed_brace s"
    by (simp add: Split_error_iff)
  show "e = ValueError" if "SplitLogExpressions s = Inl e" for e
    using that by (simp add: Split_error_iff)
  show "0 \<le> brace_count (foldl split_step split_init s)"
    by (simp add: brace_count_depth)
  show "SplitLogExpressions [] = Inr ([], [])"
    by (simp add: SplitLogExpressions_def split_init_def)
next
  fix enc xs
  assume ok: "SplitLogExpressions s = Inr (enc, xs)"
  define st where "st = foldl split_step split_init s"
  from ok have st: "brace_count st = 0" "log_format st = enc" "expressions st = xs"
    by (auto simp: SplitLogExpressions_def Let_def st_def split: if_splits)
  have step: "foldl split_step split_init (s @ ''}'') =
      st\<lparr>log_format := enc @ ''}'', need_separator := False\<rparr>"
    using st by (simp add: st_def[symmetric] close_brace_top_level)
  show "SplitLogExpressions (s @ ''}'') = Inr (enc @ ''}'', xs)"
    using st by (simp add: SplitLogExpressions_def Let_def step del: foldl_append)
  fix q enc' xs'
  assume "SplitLogExpressions (s @ ''}'' @ q) = Inr (enc', xs')"
  then have enc': "enc' = log_format (foldl split_step (foldl split_step split_init (s @ ''}'')) q)"
    by (auto simp: SplitLogExpressions_def Let_def split: if_splits)
  obtain r where "log_format (foldl split_step (foldl split_step split_init (s @ ''}'')) q)
      = log_format (foldl split_step split_init (s @ ''}'')) @ r"
    using log_format_run_grows by blast
  then show "\<exists>r. enc' = enc @ ''}'' @ r"
    unfolding enc' step by simp
qed

theorem Split_unbalanced_witness:
  "SplitLogExpressions ''{a'' = Inl ValueError \<and> unclosed_brace ''{a'' \<and>
   SplitLogExpressions ''a}'' = Inr (''a}'', []) \<and>
   SplitLogExpressions ''a}}'' = Inr (''a}}'', [])"
proof -
  have a: "SplitLogExpressions ''{a'' = Inl ValueError"
    by (simp add: SplitLogExpressions_def split_step_def split_init_def isdigit_def)
  have b: "SplitLogExpressions ''a}'' = Inr (''a}'', [])"
    by (simp add: SplitLogExpressions_def split_step_def split_init_def isdigit_def)
  from a have "unclosed_brace ''{a''"
    using Split_unbalanced [of "''{a''"] by simp
  moreover have "SplitLogExpressions (''a}'' @ ''}'') = Inr (''a}'' @ ''}'', [])"
    using Split_unbalanced [of "''a}''"] b by blast
  ultimately show ?thesis using a b by simp
qed



lemma index_of_append_in: "t \<in> set xs \<Longrightarrow> index_of (xs @ ys) t = index_of xs t"
  by (induction xs) auto

lemma index_of_snoc_new: "t \<notin> set xs \<Longrightarrow> index_of (xs @ [t]) t = length xs"
  by (induction xs) auto

lemma finish_inside [simp]:
  "finish (st\<lparr>current_expression := x, brace_count := y\<rparr>) t = finish st t"
  "finish (st\<lparr>current_expression := x\<rparr>) t = finish st t"
  "finish (st\<lparr>brace_count := y\<rparr>) t = finish st t"
  "finish (st\<lparr>brace_count := y, current_expression := x\<rparr>) t = finish st t"
  by (simp_all add: finish_def)

lemma step_inside:
  assumes "brace_count st = int (Suc d)" "\<not> need_separator st"
  shows "split_step st c =
     (if c = CHR ''{'' then
        st\<lparr>current_expression := current_expression st @ [c], brace_count := int (Suc (Suc d))\<rparr>
      else if c = CHR ''}'' then
        (case d of 0 \<Rightarrow> finish st (current_expression st)
         | Suc d' \<Rightarrow> st\<lparr>brace_count := int (Suc d'),
                            current_expression := current_expression st @ [c]\<rparr>)
      else st\<lparr>current_expression := current_expression st @ [c]\<rparr>)"
  using assms
  by (auto simp: split_step_def Let_def finish_def add_expr_def index_of_snoc_new
      split: nat.splits)

lemma in_expression_run:
  assumes "brace_count st = int (Suc d)" "\<not> need_separator st" "current_expression st = acc"
  shows "(take_expr d acc cs = None \<longrightarrow> brace_count (foldl split_step st cs) \<noteq> 0) \<and>
         (\<forall>t rest. take_expr d acc cs = Some (t, rest) \<longrightarrow>
            foldl split_step st cs = foldl split_step (finish st t) rest)"
  using assms
proof (induction cs arbitrary: d acc st)
  case Nil
  then show ?case by simp
next
  case (Cons c cs)
  note step = step_inside[OF Cons.prems(1,2)]
  show ?case
  proof (cases "c = CHR ''{''")
    case True
    then show ?thesis
      using Cons.IH[of "split_step st c" "Suc d" "acc @ [c]"] Cons.prems
      by (simp add: step)
  next
    case notopen: False
    show ?thesis
    proof (cases "c = CHR ''}''")
      case True
      show ?thesis
      proof (cases d)
        case 0
        with True Cons.prems show ?thesis by (simp add: step)
      next
        case (Suc d')
        with True show ?thesis
          using Cons.IH[of "split_step st c" d' "acc @ [c]"] Cons.prems
          by (simp add: step)
      qed
    next
      case False
      with notopen show ?thesis
        using Cons.IH[of "split_step st c" d "acc @ [c]"] Cons.prems
        by (simp add: step)
    qed
  qed
qed


lemma step_top:
  assumes "brace_count st = 0"
  shows "split_step st c =
     (if c = CHR ''{'' then
        st\<lparr>need_separator := False, current_expression := [], brace_count := 1\<rparr>
      else st\<lparr>need_separator := False,
              log_format := log_format st @
                (if need_separator st \<and> isdigit c then '' '' else []) @ [c]\<rparr>)"
  using assms by (auto simp: split_step_def Let_def isdigit_def)

lemma top_level_run:
  assumes "brace_count st = 0"
  shows "(parse_items s = None \<longrightarrow> brace_count (foldl split_step st s) \<noteq> 0) \<and>
         (\<forall>its. parse_items s = Some its \<longrightarrow>
            brace_count (foldl split_step st s) = 0 \<and>
            expressions (foldl split_step st s) = accum (expressions st) (exprs_of its) \<and>
            log_format (foldl split_step st s) =
              log_format st @ (if need_separator st then separator its else []) @
              render (expressions st) its)"
  using assms
proof (induction s arbitrary: st rule: parse_items.induct)
  case 1
  then show ?case by simp
next
  case (2 c cs)
  note step = step_top[OF "2.prems"]
  show ?case
  proof (cases "c = CHR ''{''")
    case True
    define st' where "st' = st\<lparr>need_separator := False, current_expression := [], brace_count := 1\<rparr>"
    have st': "brace_count st' = int (Suc 0)" "\<not> need_separator st'" "current_expression st' = []"
      by (simp_all add: st'_def)
    note inner = in_expression_run[OF st', of cs]
    have run: "foldl split_step st (c # cs) = foldl split_step st' cs"
      using True by (simp add: step st'_def)
    show ?thesis
    proof (cases "take_expr 0 [] cs")
      case None
      with inner True run show ?thesis by simp
    next
      case (Some p)
      obtain t rest where p: "p = (t, rest)" by (cases p)
      define st2 where "st2 = finish st' t"
      have st2: "brace_count st2 = 0" "need_separator st2"
        "expressions st2 = add_expr (expressions st) t"
        "log_format st2 = log_format st @ ''$'' @
           str_of_nat (index_of (add_expr (expressions st) t) t)"
        by (simp_all add: st2_def finish_def st'_def)
      have run2: "foldl split_step st (c # cs) = foldl split_step st2 rest"
        using inner Some p run by (simp add: st2_def)
      note IH = "2.IH"(1)[OF True Some p[symmetric] st2(1)]
      show ?thesis
        using IH True Some p unfolding run2
        by (auto simp: st2)
    qed
  next
    case False
    define st' where "st' = st\<lparr>need_separator := False,
              log_format := log_format st @
                (if need_separator st \<and> isdigit c then '' '' else []) @ [c]\<rparr>"
    have st': "brace_count st' = 0" "\<not> need_separator st'"
      "expressions st' = expressions st"
      "log_format st' = log_format st @
                (if need_separator st \<and> isdigit c then '' '' else []) @ [c]"
      using "2.prems" by (simp_all add: st'_def)
    have run: "foldl split_step st (c # cs) = foldl split_step st' cs"
      using False by (simp add: step st'_def)
    note IH = "2.IH"(2)[OF False st'(1)]
    show ?thesis
      using IH False unfolding run
      by (auto simp: st')
  qed
qed


lemma accum_dedup: "accum xs ts = xs @ dedup_first (filter (\<lambda>t. t \<notin> set xs) ts)"
proof (induction ts arbitrary: xs)
  case Nil
  then show ?case by simp
next
  case (Cons t ts)
  show ?case
  proof (cases "t \<in> set xs")
    case True
    then show ?thesis by (simp add: Cons.IH add_expr_def)
  next
    case False
    have "removeAll t (filter (\<lambda>t. t \<notin> set xs) ts) =
          filter (\<lambda>x. x \<notin> set (xs @ [t])) ts"
      by (induction ts) auto
    with False show ?thesis by (simp add: Cons.IH add_expr_def)
  qed
qed

lemma accum_Nil: "accum [] ts = dedup_first ts"
  by (simp add: accum_dedup)

lemma set_dedup_first: "set (dedup_first xs) = set xs"
  by (induction xs rule: dedup_first.induct) auto

lemma distinct_dedup_first: "distinct (dedup_first xs)"
  by (induction xs rule: dedup_first.induct) (auto simp: set_dedup_first)

lemma index_of_accum: "t \<in> set xs \<Longrightarrow> index_of (accum xs ts) t = index_of xs t"
  by (simp add: accum_dedup index_of_append_in)

lemma render_encode: "render xs its = encode (accum xs (exprs_of its)) its"
proof (induction its arbitrary: xs)
  case Nil
  then show ?case by simp
next
  case (Cons it its)
  show ?case
  proof (cases it)
    case (Lit c)
    then show ?thesis by (simp add: Cons.IH)
  next
    case (Expr t)
    have "t \<in> set (add_expr xs t)" by (simp add: add_expr_def)
    then show ?thesis using Expr by (simp add: Cons.IH index_of_accum)
  qed
qed

lemma Split_refines:
  "SplitLogExpressions s =
     (case parse_items s of
        None \<Rightarrow> Inl ValueError
      | Some its \<Rightarrow>
          Inr (encode (dedup_first (exprs_of its)) its, dedup_first (exprs_of its)))"
proof -
  have init: "brace_count split_init = 0" "expressions split_init = []"
    "log_format split_init = []" "\<not> need_separator split_init"
    by (simp_all add: split_init_def)
  note run = top_level_run[OF init(1), of s]
  show ?thesis
  proof (cases "parse_items s")
    case None
    with run show ?thesis by (simp add: SplitLogExpressions_def Let_def)
  next
    case (Some its)
    with run show ?thesis
      by (simp add: SplitLogExpressions_def Let_def init render_encode accum_Nil)
  qed
qed

lemma take_expr_source:
  "take_expr d acc cs = Some (t, rest) \<Longrightarrow> \<exists>x. t = acc @ x \<and> cs = x @ ''}'' @ rest"
proof (induction cs arbitrary: d acc)
  case Nil
  then show ?case by simp
next
  case (Cons c cs)
  show ?case
  proof (cases "c = CHR ''}'' \<and> d = 0")
    case True
    with Cons.prems show ?thesis by simp
  next
    case False
    with Cons.prems obtain d' where "take_expr d' (acc @ [c]) cs = Some (t, rest)"
      by (auto split: if_splits nat.splits)
    from Cons.IH[OF this] obtain x where "t = (acc @ [c]) @ x" "cs = x @ ''}'' @ rest"
      by blast
    then have "t = acc @ (c # x) \<and> c # cs = (c # x) @ ''}'' @ rest" by simp
    then show ?thesis by blast
  qed
qed

lemma parse_items_source: "parse_items s = Some its \<Longrightarrow> source_form its = s"
proof (induction s arbitrary: its rule: parse_items.induct)
  case 1
  then show ?case by simp
next
  case (2 c cs)
  show ?case
  proof (cases "c = CHR ''{''")
    case True
    with "2.prems" obtain t rest its' where
      te: "take_expr 0 [] cs = Some (t, rest)" and
      its': "parse_items rest = Some its'" "its = Expr t # its'"
      by (auto split: option.splits)
    from "2.IH"(1)[OF True te refl its'(1)] have "source_form its' = rest" .
    moreover from take_expr_source[OF te] have "cs = t @ ''}'' @ rest" by simp
    ultimately show ?thesis using True its' by simp
  next
    case False
    with "2.prems" obtain its' where its': "parse_items cs = Some its'" "its = Lit c # its'"
      by auto
    from "2.IH"(2)[OF False its'(1)] its' show ?thesis by simp
  qed
qed

text \<open>The parser fails exactly on the inputs with an unclosed brace.\<close>

lemma parse_items_balanced: "(parse_items s = None) = unclosed_brace s"
proof -
  have "(parse_items s = None) = (SplitLogExpressions s = Inl ValueError)"
    by (cases "parse_items s") (simp_all add: Split_refines)
  then show ?thesis by (simp add: Split_error_iff)
qed

lemma digit_char_props:
  assumes "d < 10"
  shows "isdigit (digit_char d)" "digit_val (digit_char d) = d"
proof -
  from assms have "d \<in> {0, 1, 2, 3, 4, 5, 6, 7, 8, 9}" by auto
  then show "isdigit (digit_char d)" "digit_val (digit_char d) = d"
    by (auto simp: isdigit_def digit_char_def digit_val_def)
qed

lemma str_of_nat_nonempty: "str_of_nat n \<noteq> []"
  by (subst str_of_nat.simps) simp

lemma str_of_nat_digits: "list_all isdigit (str_of_nat n)"
proof (induction n rule: str_of_nat.induct)
  case (1 n)
  show ?case
  proof (cases "n < 10")
    case True
    then show ?thesis by (subst str_of_nat.simps) (simp add: digit_char_props)
  next
    case False
    with "1.IH" show ?thesis by (subst str_of_nat.simps) (simp add: digit_char_props)
  qed
qed

lemma nat_of_digits_snoc: "nat_of_digits (ds @ [c]) = 10 * nat_of_digits ds + digit_val c"
  by (simp add: nat_of_digits_def)

lemma nat_of_digits_str: "nat_of_digits (str_of_nat n) = n"
proof (induction n rule: str_of_nat.induct)
  case (1 n)
  show ?case
  proof (cases "n < 10")
    case True
    then show ?thesis
      by (subst str_of_nat.simps) (simp add: nat_of_digits_def digit_char_props)
  next
    case False
    with "1.IH" show ?thesis
      by (subst str_of_nat.simps) (simp add: nat_of_digits_snoc digit_char_props)
  qed
qed

lemma takeWhile_digits_then:
  "list_all isdigit ds \<Longrightarrow> \<not> starts_digit r \<Longrightarrow>
   takeWhile isdigit (ds @ r) = ds \<and> dropWhile isdigit (ds @ r) = r"
  by (induction ds) (auto simp: starts_digit_def split: list.splits)

lemma segments_token:
  assumes "ds \<noteq> []" "list_all isdigit ds" "\<not> starts_digit r"
  shows "segments (''$'' @ ds @ r) = Token ds # segments r"
  using assms takeWhile_digits_then[OF assms(2,3)] by simp

lemma segments_text:
  assumes "c \<noteq> CHR ''$'' \<or> \<not> starts_digit r"
  shows "segments (c # r) = Text c # segments r"
proof -
  have "\<not> starts_digit r \<Longrightarrow> takeWhile isdigit r = []"
    by (cases r) (auto simp: starts_digit_def)
  with assms show ?thesis by auto
qed

lemma separator_next: "separator its = (if next_is_digit its then '' '' else [])"
  by (induction its rule: separator.induct) auto

lemma starts_digit_encode: "starts_digit (encode xs its) = next_is_digit its"
  by (induction its rule: next_is_digit.induct) (auto simp: starts_digit_def isdigit_def)

lemma segments_encode:
  "literal_token_free its \<Longrightarrow> segments (encode xs its) = seg_of xs its"
proof (induction its)
  case Nil
  then show ?case by simp
next
  case (Cons it its)
  show ?case
  proof (cases it)
    case (Lit c)
    with Cons.prems have "c \<noteq> CHR ''$'' \<or> \<not> starts_digit (encode xs its)"
      by (auto simp: starts_digit_encode)
    from segments_text[OF this] Cons Lit show ?thesis by simp
  next
    case (Expr t)
    let ?ds = "str_of_nat (index_of xs t)"
    let ?r = "separator its @ encode xs its"
    have r: "\<not> starts_digit ?r"
      by (auto simp: separator_next starts_digit_encode) (simp add: starts_digit_def isdigit_def)
    have "segments ?r = map Text (separator its) @ seg_of xs its"
    proof (cases "next_is_digit its")
      case True
      have "segments (CHR '' '' # encode xs its) = Text CHR '' '' # segments (encode xs its)"
        by (rule segments_text) simp
      with True Cons Expr show ?thesis by (simp add: separator_next)
    next
      case False
      with Cons Expr show ?thesis by (simp add: separator_next)
    qed
    with segments_token[OF str_of_nat_nonempty str_of_nat_digits r, of "index_of xs t"] Expr
    show ?thesis by simp
  qed
qed

lemma isdigit_not_brace: "isdigit c \<Longrightarrow> c \<noteq> CHR ''{'' \<and> c \<noteq> CHR ''}''"
  by (auto simp: isdigit_def)

lemma split_field_digits:
  "list_all isdigit ds \<Longrightarrow> split_field 1 acc (ds @ ''}'' @ r) = Some (acc @ ds, r)"
  by (induction ds arbitrary: acc) (auto dest: isdigit_not_brace)

lemma format_text:
  "c \<noteq> CHR ''{'' \<Longrightarrow> c \<noteq> CHR ''}'' \<Longrightarrow>
   format_str (c # r) args = map_sum id ((#) c) (format_str r args)"
  by simp

lemma format_token:
  assumes "ds \<noteq> []" "list_all isdigit ds"
  shows "format_str (''{{{'' @ ds @ ''}}}'' @ r) args =
     (case format_field ds args of
        Inl e \<Rightarrow> Inl e
      | Inr v \<Rightarrow> map_sum id (\<lambda>s. ''{'' @ v @ ''}'' @ s) (format_str r args))"
proof -
  obtain d ds' where ds: "ds = d # ds'" using assms(1) by (cases ds) auto
  have d: "d \<noteq> CHR ''{''" using assms(2) ds by (auto dest: isdigit_not_brace)
  have sf: "split_field 1 [] (ds @ ''}'' @ (''}}'' @ r)) = Some (ds, ''}}'' @ r)"
    using split_field_digits[OF assms(2), of "[]"] by simp
  have close: "format_str (''}}'' @ r) args = map_sum id ((#) CHR ''}'') (format_str r args)"
    by simp
  have inner: "format_str (''{'' @ ds @ ''}}}'' @ r) args =
     (case format_field ds args of
        Inl e \<Rightarrow> Inl e
      | Inr v \<Rightarrow> map_sum id ((@) v) (map_sum id ((#) CHR ''}'') (format_str r args)))"
    using sf d close unfolding ds
    by (cases "format_field (d # ds') args") (simp_all del: split_field.simps)
  have "format_str (''{{{'' @ ds @ ''}}}'' @ r) args =
      map_sum id ((#) CHR ''{'') (format_str (''{'' @ ds @ ''}}}'' @ r) args)"
    by simp
  also have "\<dots> = (case format_field ds args of
        Inl e \<Rightarrow> Inl e
      | Inr v \<Rightarrow> map_sum id (\<lambda>s. ''{'' @ v @ ''}'' @ s) (format_str r args))"
    unfolding inner by (cases "format_field ds args"; cases "format_str r args") auto
  finally show ?thesis .
qed

lemma format_segments:
  "list_all seg_ok segs \<Longrightarrow>
   format_str (concat (map replace_segment segs)) args = subst_segments args segs"
proof (induction segs)
  case Nil
  then show ?case by simp
next
  case (Cons seg segs)
  show ?case
  proof (cases seg)
    case (Text c)
    with Cons show ?thesis by (simp del: format_str.simps add: format_text)
  next
    case (Token ds)
    with Cons.prems have "ds \<noteq> []" "list_all isdigit ds" by auto
    from format_token[OF this] Cons Token show ?thesis
      by (cases "format_field ds args") (simp_all del: format_str.simps)
  qed
qed

lemma token_indices_of_texts: "token_indices_of (map Text cs @ segs) = token_indices_of segs"
  by (induction cs) auto

lemma token_indices_seg_of:
  "token_indices_of (seg_of xs its) = map (index_of xs) (exprs_of its)"
  by (induction its rule: exprs_of.induct)
     (auto simp: token_indices_of_texts nat_of_digits_str)

lemma index_of_less: "t \<in> set xs \<Longrightarrow> index_of xs t < length xs"
  by (induction xs) auto

lemma nth_index_of: "t \<in> set xs \<Longrightarrow> xs ! index_of xs t = t"
  by (induction xs) auto

lemma Split_ok:
  assumes "parse_items s = Some its"
  shows "SplitLogExpressions s =
    Inr (encode (dedup_first (exprs_of its)) its, dedup_first (exprs_of its))"
  using assms by (simp add: Split_refines)

lemma encode_append_expr:
  "encode xs (pre @ Expr t # post) = encode xs pre @ encode xs (Expr t # post)"
proof (induction pre rule: exprs_of.induct)
  case 1
  then show ?case by simp
next
  case (2 c its)
  then show ?case by simp
next
  case (3 u its)
  have "separator (its @ Expr t # post) = separator its"
    by (cases its rule: separator.cases) auto
  with 3 show ?case by simp
qed

lemma source_form_append: "source_form (a @ b) = source_form a @ source_form b"
  by (induction a rule: source_form.induct) auto

text \<open>
  Claim C9. Let the format string read as \<open>pre\<close>, an expression \<open>t\<close>, and \<open>post\<close>.
  In the output of \<^verbatim>\<open>SplitLogExpressions\<close> the token of \<open>t\<close> follows the encoding of
  \<open>pre\<close>; when the next character \<open>c\<close> of the input is a literal digit, exactly one
  space stands between the token and \<open>c\<close>; when \<open>c\<close> is no digit, \<open>c\<close> follows the token
  at once; and when the input ends there or another expression follows, nothing is
  inserted either. \<^verbatim>\<open>Split("{a}5") = ("$0 5", ["a"])\<close>.
\<close>

theorem Split_separator:
  assumes "parse_items s = Some (pre @ Expr t # post)"
  shows "s = source_form pre @ ''{'' @ t @ ''}'' @ source_form post \<and>
     (\<exists>enc xs. SplitLogExpressions s = Inr (enc, xs) \<and>
        (case post of
           Lit c # post' \<Rightarrow>
             enc = encode xs pre @ ''$'' @ str_of_nat (index_of xs t) @
                   (if isdigit c then '' '' else []) @ [c] @ encode xs post'
         | _ \<Rightarrow>
             enc = encode xs pre @ ''$'' @ str_of_nat (index_of xs t) @ encode xs post)) \<and>
     SplitLogExpressions ''{a}5'' = Inr (''$0 5'', [''a''])"
proof (intro conjI)
  from parse_items_source[OF assms]
  show "s = source_form pre @ ''{'' @ t @ ''}'' @ source_form post"
    by (simp add: source_form_append)
  let ?xs = "dedup_first (exprs_of (pre @ Expr t # post))"
  let ?enc = "encode ?xs (pre @ Expr t # post)"
  have "case post of
           Lit c # post' \<Rightarrow>
             ?enc = encode ?xs pre @ ''$'' @ str_of_nat (index_of ?xs t) @
                   (if isdigit c then '' '' else []) @ [c] @ encode ?xs post'
         | _ \<Rightarrow>
             ?enc = encode ?xs pre @ ''$'' @ str_of_nat (index_of ?xs t) @ encode ?xs post"
    unfolding encode_append_expr
    by (cases post rule: separator.cases) simp_all
  with Split_ok[OF assms]
  show "\<exists>enc xs. SplitLogExpressions s = Inr (enc, xs) \<and>
        (case post of
           Lit c # post' \<Rightarrow>
             enc = encode xs pre @ ''$'' @ str_of_nat (index_of xs t) @
                   (if isdigit c then '' '' else []) @ [c] @ encode xs post'
         | _ \<Rightarrow>
             enc = encode xs pre @ ''$'' @ str_of_nat (index_of xs t) @ encode xs post)"
    by blast
  show "SplitLogExpressions ''{a}5'' = Inr (''$0 5'', [''a''])"
    by (simp add: SplitLogExpressions_def split_step_def split_init_def isdigit_def
        str_of_nat.simps digit_char_def)
qed

theorem Split_separator_witness:
  "parse_items ''x{a}5{b}y'' = Some ([Lit CHR ''x''] @ Expr ''a'' # [Lit CHR ''5'', Expr ''b'', Lit CHR ''y'']) \<and>
   SplitLogExpressions ''x{a}5{b}y'' = Inr (''x$0 5$1y'', [''a'', ''b''])"
proof -
  have p: "parse_items ''x{a}5{b}y'' =
      Some ([Lit CHR ''x''] @ Expr ''a'' # [Lit CHR ''5'', Expr ''b'', Lit CHR ''y''])"
    by simp
  have "SplitLogExpressions ''x{a}5{b}y'' = Inr (''x$0 5$1y'', [''a'', ''b''])"
    by (simp add: SplitLogExpressions_def split_step_def split_init_def isdigit_def
        str_of_nat.simps digit_char_def)
  with Split_separator[OF p] p show ?thesis by simp
qed

text \<open>
  Claim C1, as amended. For a format string with balanced top-level braces and no
  literal token, \<^verbatim>\<open>SplitLogExpressions\<close> returns a format whose \<^verbatim>\<open>$i\<close> tokens all
  have \<open>i < len(exprs)\<close>; the tokens are, in order, the indices in \<open>exprs\<close> of the
  expressions of the input, so the same text always gets the same index and that index
  holds the text; and \<open>exprs\<close> is the expressions of the input, deduplicated and
  ordered by first appearance. \<^verbatim>\<open>Split("{x}{x}") = ("$0$0", ["x"])\<close>.
\<close>

theorem Split_token_indices:
  assumes "parse_items s = Some its" "literal_token_free its"
  shows "(\<exists>enc xs. SplitLogExpressions s = Inr (enc, xs) \<and>
            (\<forall>i \<in> set (token_indices enc). i < length xs) \<and>
            token_indices enc = map (index_of xs) (exprs_of its) \<and>
            (\<forall>t \<in> set (exprs_of its). t \<in> set xs \<and> xs ! index_of xs t = t) \<and>
            xs = dedup_first (exprs_of its) \<and> distinct xs) \<and>
         SplitLogExpressions ''{x}{x}'' = Inr (''$0$0'', [''x''])"
proof (intro conjI)
  let ?xs = "dedup_first (exprs_of its)"
  let ?enc = "encode ?xs its"
  have ti: "token_indices ?enc = map (index_of ?xs) (exprs_of its)"
    by (simp add: token_indices_def segments_encode[OF assms(2)] token_indices_seg_of)
  have mem: "\<forall>t \<in> set (exprs_of its). t \<in> set ?xs \<and> ?xs ! index_of ?xs t = t"
    by (simp add: set_dedup_first nth_index_of)
  have "\<forall>i \<in> set (token_indices ?enc). i < length ?xs"
    unfolding ti using mem by (auto simp: index_of_less)
  with Split_ok[OF assms(1)] ti mem
  show "\<exists>enc xs. SplitLogExpressions s = Inr (enc, xs) \<and>
            (\<forall>i \<in> set (token_indices enc). i < length xs) \<and>
            token_indices enc = map (index_of xs) (exprs_of its) \<and>
            (\<forall>t \<in> set (exprs_of its). t \<in> set xs \<and> xs ! index_of xs t = t) \<and>
            xs = dedup_first (exprs_of its) \<and> distinct xs"
    using distinct_dedup_first[of "exprs_of its"] by blast
  show "SplitLogExpressions ''{x}{x}'' = Inr (''$0$0'', [''x''])"
    by (simp add: SplitLogExpressions_def split_step_def split_init_def isdigit_def
        str_of_nat.simps digit_char_def)
qed

theorem Split_token_indices_witness:
  "parse_items ''a={a}, b={b}{a}'' = Some [Lit CHR ''a'', Lit CHR ''='', Expr ''a'',
      Lit CHR '','', Lit CHR '' '', Lit CHR ''b'', Lit CHR ''='', Expr ''b'', Expr ''a''] \<and>
   SplitLogExpressions ''a={a}, b={b}{a}'' = Inr (''a=$0, b=$1$0'', [''a'', ''b'']) \<and>
   token_indices ''a=$0, b=$1$0'' = [0, 1, 0]"
proof -
  let ?its = "[Lit CHR ''a'', Lit CHR ''='', Expr ''a'',
      Lit CHR '','', Lit CHR '' '', Lit CHR ''b'', Lit CHR ''='', Expr ''b'', Expr ''a'']"
  have p: "parse_items ''a={a}, b={b}{a}'' = Some ?its" by simp
  have f: "literal_token_free ?its" by simp
  have s: "SplitLogExpressions ''a={a}, b={b}{a}'' = Inr (''a=$0, b=$1$0'', [''a'', ''b''])"
    by (simp add: SplitLogExpressions_def split_step_def split_init_def isdigit_def
        str_of_nat.simps digit_char_def)
  from Split_token_indices[OF p f] s
  have "token_indices ''a=$0, b=$1$0'' = map (index_of [''a'', ''b'']) (exprs_of ?its)"
    by simp
  then have "token_indices ''a=$0, b=$1$0'' = [0, 1, 0]" by simp
  with p s show ?thesis by simp
qed

text \<open>
  The claim as stated fails for literal text that reads as a token: \<^verbatim>\<open>"$5"\<close> has no
  braces at all, is copied as it is, and its token \<^verbatim>\<open>$5\<close> has no expression.
\<close>

theorem Split_literal_token_counterexample:
  "parse_items ''$5'' = Some [Lit CHR ''$'', Lit CHR ''5''] \<and>
   SplitLogExpressions ''$5'' = Inr (''$5'', []) \<and>
   token_indices ''$5'' = [5] \<and>
   \<not> (5::nat) < length ([] :: string list)"
  by (simp add: SplitLogExpressions_def split_step_def split_init_def isdigit_def
      token_indices_def nat_of_digits_def digit_val_def)

lemma format_field_index:
  "i < length args \<Longrightarrow> format_field (str_of_nat i) args = Inr (args ! i)"
  by (simp add: format_field_def str_of_nat_nonempty str_of_nat_digits nat_of_digits_str)

lemma subst_segments_texts:
  "subst_segments args (map Text cs @ segs) = map_sum id ((@) cs) (subst_segments args segs)"
proof (induction cs)
  case Nil
  show ?case by (cases "subst_segments args segs") auto
next
  case (Cons c cs)
  then show ?case by (cases "subst_segments args segs") auto
qed

lemma subst_seg_of:
  "set (exprs_of its) \<subseteq> set xs \<Longrightarrow>
   subst_segments xs (seg_of xs its) = Inr (merged_form its)"
proof (induction its rule: exprs_of.induct)
  case 1
  then show ?case by simp
next
  case (2 c its)
  then show ?case by simp
next
  case (3 t its)
  then have "t \<in> set xs" by simp
  then have "format_field (str_of_nat (index_of xs t)) xs = Inr t"
    by (simp add: format_field_index index_of_less nth_index_of)
  with 3 show ?case by (simp add: subst_segments_texts)
qed

lemma seg_ok_seg_of:
  "Lit CHR ''{'' \<notin> set its \<Longrightarrow> Lit CHR ''}'' \<notin> set its \<Longrightarrow>
   list_all seg_ok (seg_of xs its)"
proof (induction its rule: exprs_of.induct)
  case 1
  then show ?case by simp
next
  case (2 c its)
  then show ?case by auto
next
  case (3 t its)
  have "list_all seg_ok (map Text (separator its))"
    by (simp add: separator_next)
  with 3 show ?case by (simp add: str_of_nat_nonempty str_of_nat_digits)
qed

lemma parse_items_no_open: "parse_items s = Some its \<Longrightarrow> Lit CHR ''{'' \<notin> set its"
proof (induction s arbitrary: its rule: parse_items.induct)
  case 1
  then show ?case by simp
next
  case (2 c cs)
  show ?case
  proof (cases "c = CHR ''{''")
    case True
    with "2.prems" obtain t rest its' where
      te: "take_expr 0 [] cs = Some (t, rest)" and
      its': "parse_items rest = Some its'" "its = Expr t # its'"
      by (auto split: option.splits)
    from "2.IH"(1)[OF True te refl its'(1)] its' show ?thesis by simp
  next
    case False
    with "2.prems" obtain its' where its': "parse_items cs = Some its'" "its = Lit c # its'"
      by auto
    from "2.IH"(2)[OF False its'(1)] its' False show ?thesis by simp
  qed
qed

lemma Merge_encode:
  assumes "literal_token_free its" "Lit CHR ''{'' \<notin> set its" "Lit CHR ''}'' \<notin> set its"
    "set (exprs_of its) \<subseteq> set xs"
  shows "MergeLogExpressions (encode xs its) xs = Inr (merged_form its)"
  unfolding MergeLogExpressions_def re_sub_tokens_def segments_encode[OF assms(1)]
  by (simp add: format_segments[OF seg_ok_seg_of[OF assms(2,3)]] subst_seg_of[OF assms(4)])

text \<open>
  Claim C7, as amended. For a format string with balanced top-level braces, no
  unmatched closing brace and no literal token, \<^verbatim>\<open>MergeLogExpressions\<close> applied to
  the output of \<^verbatim>\<open>SplitLogExpressions\<close> returns the input with the separator spaces
  left in: one space after each expression that a digit follows, and no other
  difference. \<^verbatim>\<open>Merge("a=$0, b=$1", ["a","b"]) = "a={a}, b={b}"\<close>.
\<close>

theorem Merge_Split:
  assumes "parse_items s = Some its" "literal_token_free its" "Lit CHR ''}'' \<notin> set its"
  shows "(\<exists>enc xs. SplitLogExpressions s = Inr (enc, xs) \<and>
            MergeLogExpressions enc xs = Inr (merged_form its)) \<and>
         source_form its = s \<and>
         MergeLogExpressions ''a=$0, b=$1'' [''a'', ''b''] = Inr ''a={a}, b={b}''"
proof (intro conjI)
  have "MergeLogExpressions (encode (dedup_first (exprs_of its)) its)
          (dedup_first (exprs_of its)) = Inr (merged_form its)"
    using assms parse_items_no_open[OF assms(1)]
    by (intro Merge_encode) (simp_all add: set_dedup_first)
  with Split_ok[OF assms(1)]
  show "\<exists>enc xs. SplitLogExpressions s = Inr (enc, xs) \<and>
            MergeLogExpressions enc xs = Inr (merged_form its)"
    by blast
  show "source_form its = s" by (rule parse_items_source[OF assms(1)])
  show "MergeLogExpressions ''a=$0, b=$1'' [''a'', ''b''] = Inr ''a={a}, b={b}''"
    by (simp add: MergeLogExpressions_def re_sub_tokens_def format_field_def isdigit_def
        nat_of_digits_def digit_val_def)
qed

theorem Merge_Split_witness:
  "parse_items ''n={n}5 {f{x}}'' = Some [Lit CHR ''n'', Lit CHR ''='', Expr ''n'',
      Lit CHR ''5'', Lit CHR '' '', Expr ''f{x}''] \<and>
   SplitLogExpressions ''n={n}5 {f{x}}'' = Inr (''n=$0 5 $1'', [''n'', ''f{x}'']) \<and>
   MergeLogExpressions ''n=$0 5 $1'' [''n'', ''f{x}''] = Inr ''n={n} 5 {f{x}}''"
proof -
  let ?its = "[Lit CHR ''n'', Lit CHR ''='', Expr ''n'',
      Lit CHR ''5'', Lit CHR '' '', Expr ''f{x}'']"
  have p: "parse_items ''n={n}5 {f{x}}'' = Some ?its" by simp
  have f: "literal_token_free ?its" by simp
  have b: "Lit CHR ''}'' \<notin> set ?its" by simp
  have s: "SplitLogExpressions ''n={n}5 {f{x}}'' = Inr (''n=$0 5 $1'', [''n'', ''f{x}''])"
    by (simp add: SplitLogExpressions_def split_step_def split_init_def isdigit_def
        str_of_nat.simps digit_char_def)
  from Merge_Split[OF p f b] s
  have "MergeLogExpressions ''n=$0 5 $1'' [''n'', ''f{x}''] = Inr (merged_form ?its)"
    by simp
  then have "MergeLogExpressions ''n=$0 5 $1'' [''n'', ''f{x}''] = Inr ''n={n} 5 {f{x}}''"
    by (simp add: isdigit_def)
  with p s show ?thesis by simp
qed

text \<open>
  The claim as stated fails for literal text that reads as a token: in
  \<^verbatim>\<open>"$0{a}"\<close> the literal \<^verbatim>\<open>$0\<close> is merged as if it were the expression.
\<close>

theorem Merge_Split_counterexample:
  "parse_items ''$0{a}'' = Some [Lit CHR ''$'', Lit CHR ''0'', Expr ''a''] \<and>
   SplitLogExpressions ''$0{a}'' = Inr (''$0$0'', [''a'']) \<and>
   MergeLogExpressions ''$0$0'' [''a''] = Inr ''{a}{a}'' \<and>
   merged_form [Lit CHR ''$'', Lit CHR ''0'', Expr ''a''] = ''$0{a}'' \<and>
   ''{a}{a}'' \<noteq> ''$0{a}''"
  by (simp add: SplitLogExpressions_def split_step_def split_init_def isdigit_def
      str_of_nat.simps digit_char_def MergeLogExpressions_def re_sub_tokens_def
      format_field_def nat_of_digits_def digit_val_def)

section \<open>The latest minor version\<close>

lemma truthy_minor_label:
  "truthy (minorversion d) \<Longrightarrow> \<exists>v. labels d ''minorversion'' = Some v \<and> v \<noteq> []"
  by (cases "labels d ''minorversion''") (auto simp: minorversion_def)

lemma name_nonempty: "truthy (minorversion d) \<Longrightarrow> name d \<noteq> []"
  by (simp add: name_def)

lemma loop_bad:
  assumes "n \<noteq> []" "name d \<noteq> n \<or> \<not> truthy (minorversion d)"
  shows "latest_loop best bv (Some n) (d # ds) = Inr None"
  using assms by (cases "labels d ''minorversion''") (auto simp: minorversion_def Let_def)

lemma loop_first_bad:
  assumes "\<not> truthy (minorversion d)"
  shows "latest_loop None None None (d # ds) = Inr None"
  using assms by (cases "labels d ''minorversion''") (auto simp: minorversion_def Let_def)

lemma loop_good:
  assumes "n \<noteq> []" "name d = n" "truthy (minorversion d)" "minor_number d = Some k"
  shows "latest_loop (Some b) (Some v) (Some n) (d # ds) =
     (if v = 0 \<or> v < k then latest_loop (Some d) (Some k) (Some n) ds
      else latest_loop (Some b) (Some v) (Some n) ds)"
  using assms truthy_minor_label[OF assms(3)]
  by (auto simp: minor_number_def Let_def split: sum.splits)

lemma loop_first_good:
  assumes "truthy (minorversion d)" "minor_number d = Some k"
  shows "latest_loop None None None (d # ds) = latest_loop (Some d) (Some k) (Some (name d)) ds"
  using assms truthy_minor_label[OF assms(1)]
  by (auto simp: minor_number_def Let_def split: sum.splits)

lemma loop_none:
  assumes "n \<noteq> []"
    and "\<forall>d\<in>set ds. truthy (minorversion d) \<longrightarrow> (\<exists>k. minor_number d = Some k)"
    and "\<not> ((\<forall>d\<in>set ds. name d = n) \<and> (\<forall>d\<in>set ds. truthy (minorversion d)))"
  shows "latest_loop (Some b) (Some v) (Some n) ds = Inr None"
  using assms(2,3)
proof (induction ds arbitrary: b v)
  case Nil
  then show ?case by simp
next
  case (Cons d ds)
  show ?case
  proof (cases "name d = n \<and> truthy (minorversion d)")
    case False
    then show ?thesis using loop_bad[OF assms(1)] by blast
  next
    case True
    with Cons.prems(1) obtain k where k: "minor_number d = Some k" by auto
    have rest: "\<not> ((\<forall>d\<in>set ds. name d = n) \<and> (\<forall>d\<in>set ds. truthy (minorversion d)))"
      using Cons.prems(2) True by auto
    have num: "\<forall>d\<in>set ds. truthy (minorversion d) \<longrightarrow> (\<exists>k. minor_number d = Some k)"
      using Cons.prems(1) by simp
    show ?thesis
      using loop_good[OF assms(1) _ _ k, of b v ds] True Cons.IH[OF num rest]
      by (simp del: latest_loop.simps)
  qed
qed

lemma loop_max:
  assumes "n \<noteq> []"
    and "minor_number b = Some v" "0 \<le> v"
    and "\<forall>d\<in>set ds. \<exists>k\<ge>0. minor_number d = Some k"
    and "\<forall>d\<in>set ds. name d = n \<and> truthy (minorversion d)"
  shows "\<exists>b' m. latest_loop (Some b) (Some v) (Some n) ds = Inr (Some b') \<and>
           (b' = b \<or> b' \<in> set ds) \<and> minor_number b' = Some m \<and> v \<le> m \<and>
           (\<forall>d\<in>set ds. \<exists>k. minor_number d = Some k \<and> k \<le> m)"
  using assms(2-5)
proof (induction ds arbitrary: b v)
  case Nil
  then show ?case by simp
next
  case (Cons d ds)
  from Cons.prems(3) obtain k where k: "minor_number d = Some k" "0 \<le> k" by auto
  have d: "name d = n" "truthy (minorversion d)" using Cons.prems(4) by auto
  note step = loop_good[OF assms(1) d k(1), of b v ds]
  have num: "\<forall>d\<in>set ds. \<exists>k\<ge>0. minor_number d = Some k" using Cons.prems(3) by simp
  have good: "\<forall>d\<in>set ds. name d = n \<and> truthy (minorversion d)" using Cons.prems(4) by simp
  show ?case
  proof (cases "v = 0 \<or> v < k")
    case True
    from Cons.IH[OF k num good] obtain b' m where
      r: "latest_loop (Some d) (Some k) (Some n) ds = Inr (Some b')"
         "b' = d \<or> b' \<in> set ds" "minor_number b' = Some m" "k \<le> m"
         "\<forall>d\<in>set ds. \<exists>k. minor_number d = Some k \<and> k \<le> m"
      by blast
    have "v \<le> m" using True k(2) r(4) by auto
    with r k True show ?thesis
      unfolding step by (intro exI[of _ b'] exI[of _ m]) auto
  next
    case False
    from Cons.IH[OF Cons.prems(1,2) num good] obtain b' m where
      r: "latest_loop (Some b) (Some v) (Some n) ds = Inr (Some b')"
         "b' = b \<or> b' \<in> set ds" "minor_number b' = Some m" "v \<le> m"
         "\<forall>d\<in>set ds. \<exists>k. minor_number d = Some k \<and> k \<le> m"
      by blast
    have "k \<le> m" using False r(4) by auto
    with r k False show ?thesis
      unfolding step by (intro exI[of _ b'] exI[of _ m]) auto
  qed
qed

lemmas resolver_defs = FindLatestMinorVersion_def name_def module_def version_def minorversion_def
  or_default_def py_int_def strip_def isspace_def int_of_digits_def isdigit_def
  nat_of_digits_def digit_val_def example_debuggee_def DEFAULT_MODULE_def DEFAULT_VERSION_def

text \<open>
  Claim C4, as amended. For a non-empty debuggee list in which every present, non-empty
  minor-version label is the decimal literal of a non-negative integer:
  \<^verbatim>\<open>_FindLatestMinorVersion\<close> returns a debuggee of the list whose minor version is the
  numeric maximum if every debuggee has the name of the first and every debuggee has a
  present, non-empty minor-version label (the label \<^verbatim>\<open>"0"\<close> counts as present), and
  returns no result otherwise. For debuggees all named \<^verbatim>\<open>svc-v1\<close> with the labels
  \<^verbatim>\<open>"3"\<close>, \<^verbatim>\<open>"7"\<close>, \<^verbatim>\<open>"1"\<close> it returns the one labelled \<^verbatim>\<open>"7"\<close>.
\<close>

theorem FindLatestMinorVersion_result:
  assumes "ds \<noteq> []"
    and "\<forall>d\<in>set ds. truthy (minorversion d) \<longrightarrow> (\<exists>k\<ge>0. minor_number d = Some k)"
  shows "(if (\<forall>d\<in>set ds. name d = name (hd ds)) \<and> (\<forall>d\<in>set ds. truthy (minorversion d))
          then \<exists>b m. FindLatestMinorVersion ds = Inr (Some b) \<and> b \<in> set ds \<and>
                 minor_number b = Some m \<and>
                 (\<forall>d\<in>set ds. \<exists>k. minor_number d = Some k \<and> k \<le> m)
          else FindLatestMinorVersion ds = Inr None) \<and>
         FindLatestMinorVersion
           [example_debuggee ''a'' [''module'' \<mapsto> ''svc'', ''version'' \<mapsto> ''v1'', ''minorversion'' \<mapsto> ''3''],
            example_debuggee ''b'' [''module'' \<mapsto> ''svc'', ''version'' \<mapsto> ''v1'', ''minorversion'' \<mapsto> ''7''],
            example_debuggee ''c'' [''module'' \<mapsto> ''svc'', ''version'' \<mapsto> ''v1'', ''minorversion'' \<mapsto> ''1'']]
         = Inr (Some (example_debuggee ''b''
             [''module'' \<mapsto> ''svc'', ''version'' \<mapsto> ''v1'', ''minorversion'' \<mapsto> ''7'']))"
proof (intro conjI)
  obtain d ds' where ds: "ds = d # ds'" using assms(1) by (cases ds) auto
  show "if (\<forall>d\<in>set ds. name d = name (hd ds)) \<and> (\<forall>d\<in>set ds. truthy (minorversion d))
          then \<exists>b m. FindLatestMinorVersion ds = Inr (Some b) \<and> b \<in> set ds \<and>
                 minor_number b = Some m \<and>
                 (\<forall>d\<in>set ds. \<exists>k. minor_number d = Some k \<and> k \<le> m)
          else FindLatestMinorVersion ds = Inr None"
  proof (cases "truthy (minorversion d)")
    case False
    then show ?thesis
      using loop_first_bad[OF False, of ds'] by (auto simp: ds FindLatestMinorVersion_def)
  next
    case True
    with assms(2) obtain k where k: "minor_number d = Some k" "0 \<le> k" by (auto simp: ds)
    note n = name_nonempty[OF True]
    have first: "FindLatestMinorVersion ds = latest_loop (Some d) (Some k) (Some (name d)) ds'"
      using loop_first_good[OF True k(1), of ds'] by (simp add: ds FindLatestMinorVersion_def)
    show ?thesis
    proof (cases "(\<forall>x\<in>set ds'. name x = name d) \<and> (\<forall>x\<in>set ds'. truthy (minorversion x))")
      case good: True
      have num: "\<forall>x\<in>set ds'. \<exists>k\<ge>0. minor_number x = Some k"
        using assms(2) good by (auto simp: ds)
      from loop_max[OF n k num] good obtain b' m where
        r: "latest_loop (Some d) (Some k) (Some (name d)) ds' = Inr (Some b')"
           "b' = d \<or> b' \<in> set ds'" "minor_number b' = Some m" "k \<le> m"
           "\<forall>x\<in>set ds'. \<exists>j. minor_number x = Some j \<and> j \<le> m"
        by blast
      have "\<exists>b m. FindLatestMinorVersion ds = Inr (Some b) \<and> b \<in> set ds \<and>
                 minor_number b = Some m \<and>
                 (\<forall>d\<in>set ds. \<exists>k. minor_number d = Some k \<and> k \<le> m)"
        using r k unfolding first by (intro exI[of _ b'] exI[of _ m]) (auto simp: ds)
      with good True show ?thesis by (simp add: ds)
    next
      case bad: False
      have num: "\<forall>x\<in>set ds'. truthy (minorversion x) \<longrightarrow> (\<exists>k. minor_number x = Some k)"
        using assms(2) by (auto simp: ds)
      from loop_none[OF n num bad] bad show ?thesis
        unfolding first by (auto simp: ds)
    qed
  qed
  show "FindLatestMinorVersion
           [example_debuggee ''a'' [''module'' \<mapsto> ''svc'', ''version'' \<mapsto> ''v1'', ''minorversion'' \<mapsto> ''3''],
            example_debuggee ''b'' [''module'' \<mapsto> ''svc'', ''version'' \<mapsto> ''v1'', ''minorversion'' \<mapsto> ''7''],
            example_debuggee ''c'' [''module'' \<mapsto> ''svc'', ''version'' \<mapsto> ''v1'', ''minorversion'' \<mapsto> ''1'']]
         = Inr (Some (example_debuggee ''b''
             [''module'' \<mapsto> ''svc'', ''version'' \<mapsto> ''v1'', ''minorversion'' \<mapsto> ''7'']))"
    by (simp add: resolver_defs)
qed

theorem FindLatestMinorVersion_result_witness:
  "name (example_debuggee ''a'' [''version'' \<mapsto> ''v1'', ''minorversion'' \<mapsto> ''0'']) = ''default-v1'' \<and>
   name (example_debuggee ''b'' [''version'' \<mapsto> ''v1'', ''minorversion'' \<mapsto> ''12'']) = ''default-v1'' \<and>
   (\<exists>b. FindLatestMinorVersion
      [example_debuggee ''a'' [''version'' \<mapsto> ''v1'', ''minorversion'' \<mapsto> ''0''],
       example_debuggee ''b'' [''version'' \<mapsto> ''v1'', ''minorversion'' \<mapsto> ''12'']] = Inr (Some b) \<and>
      minor_number b = Some 12)"
proof -
  let ?a = "example_debuggee ''a'' [''version'' \<mapsto> ''v1'', ''minorversion'' \<mapsto> ''0'']"
  let ?b = "example_debuggee ''b'' [''version'' \<mapsto> ''v1'', ''minorversion'' \<mapsto> ''12'']"
  have na: "name ?a = ''default-v1''" and nb: "name ?b = ''default-v1''"
    by (simp_all add: resolver_defs)
  have ma: "minor_number ?a = Some 0" and mb: "minor_number ?b = Some 12"
    by (simp_all add: minor_number_def resolver_defs)
  have ta: "truthy (minorversion ?a)" and tb: "truthy (minorversion ?b)"
    by (simp_all add: resolver_defs)
  have h1: "[?a, ?b] \<noteq> []" by simp
  have h2: "\<forall>d\<in>set [?a, ?b]. truthy (minorversion d) \<longrightarrow> (\<exists>k\<ge>0. minor_number d = Some k)"
    using ma mb by simp
  have c: "(\<forall>d\<in>set [?a, ?b]. name d = name (hd [?a, ?b])) \<and>
           (\<forall>d\<in>set [?a, ?b]. truthy (minorversion d))"
    using na nb ta tb by simp
  have "\<exists>b m. FindLatestMinorVersion [?a, ?b] = Inr (Some b) \<and> b \<in> set [?a, ?b] \<and>
          minor_number b = Some m \<and>
          (\<forall>d\<in>set [?a, ?b]. \<exists>k. minor_number d = Some k \<and> k \<le> m)"
    using FindLatestMinorVersion_result[OF h1 h2, THEN conjunct1] c by (simp only: if_True)
  then obtain b m where r: "FindLatestMinorVersion [?a, ?b] = Inr (Some b)"
    "b \<in> set [?a, ?b]" "minor_number b = Some m"
    "\<forall>d\<in>set [?a, ?b]. \<exists>k. minor_number d = Some k \<and> k \<le> m"
    by blast
  from r(4) have "\<exists>k. minor_number ?b = Some k \<and> k \<le> m" by simp
  with mb have "12 \<le> m" by simp
  moreover from r(2) have "b = ?a \<or> b = ?b" by simp
  with r(3) ma mb have "m = 0 \<or> m = 12" by auto
  ultimately have "m = 12" by simp
  with r(1,3) na nb show ?thesis by blast
qed

text \<open>
  The claim as stated fails: a non-empty label that is no integer raises
  \<^verbatim>\<open>ValueError\<close> instead of giving no result; after a label \<^verbatim>\<open>"0"\<close> the next debuggee
  replaces the best one whatever its number, so with \<^verbatim>\<open>"0"\<close> and \<^verbatim>\<open>"-1"\<close> (same
  name) the result is not the maximum; and for the empty list, where every debuggee
  has every property, there is no result.
\<close>

theorem FindLatestMinorVersion_counterexample:
  "FindLatestMinorVersion [example_debuggee ''a'' [''minorversion'' \<mapsto> ''abc'']]
     = Inl ValueError \<and>
   FindLatestMinorVersion
     [example_debuggee ''a'' [''minorversion'' \<mapsto> ''0''],
      example_debuggee ''b'' [''minorversion'' \<mapsto> ''-1'']]
     = Inr (Some (example_debuggee ''b'' [''minorversion'' \<mapsto> ''-1''])) \<and>
   name (example_debuggee ''a'' [''minorversion'' \<mapsto> ''0'']) =
   name (example_debuggee ''b'' [''minorversion'' \<mapsto> ''-1'']) \<and>
   FindLatestMinorVersion [] = Inr None"
  by (simp add: resolver_defs)

section \<open>Resolving a debuggee\<close>

text \<open>
  Claim C2, as amended. \<^verbatim>\<open>DefaultDebuggee\<close>: no debuggee fails with
  \<^verbatim>\<open>NoDebuggeeError\<close>; exactly one is returned; otherwise, in this order: the result of
  \<^verbatim>\<open>_FindLatestMinorVersion\<close> over all, if it has one; the debuggees whose module label is
  absent or empty (none: \<^verbatim>\<open>MultipleDebuggeesError\<close> with all debuggees; one: that one);
  the result of \<^verbatim>\<open>_FindLatestMinorVersion\<close> over those; of those, the debuggees whose
  version label is absent or empty (none: \<^verbatim>\<open>MultipleDebuggeesError\<close> with all
  debuggees; one: that one); the result of \<^verbatim>\<open>_FindLatestMinorVersion\<close> over those; and
  \<^verbatim>\<open>NoDebuggeeError\<close> when that has no result either. An exception of
  \<^verbatim>\<open>_FindLatestMinorVersion\<close> passes through.
\<close>

theorem DefaultDebuggee_steps:
  "(let by_module = filter (\<lambda>d. \<not> truthy (module d)) ds;
        by_version = filter (\<lambda>d. \<not> truthy (version d)) by_module
    in (ds = [] \<longrightarrow> DefaultDebuggee ds = Inl (NoDebuggeeError None)) \<and>
       (\<forall>d. ds = [d] \<longrightarrow> DefaultDebuggee ds = Inr d) \<and>
       (1 < length ds \<longrightarrow>
          (\<forall>d. FindLatestMinorVersion ds = Inr (Some d) \<longrightarrow> DefaultDebuggee ds = Inr d) \<and>
          (\<forall>e. FindLatestMinorVersion ds = Inl e \<longrightarrow> DefaultDebuggee ds = Inl (PyError e)) \<and>
          (FindLatestMinorVersion ds = Inr None \<longrightarrow>
             (by_module = [] \<longrightarrow> DefaultDebuggee ds = Inl (MultipleDebuggeesError None ds)) \<and>
             (\<forall>d. by_module = [d] \<longrightarrow> DefaultDebuggee ds = Inr d) \<and>
             (1 < length by_module \<longrightarrow>
                (\<forall>d. FindLatestMinorVersion by_module = Inr (Some d) \<longrightarrow>
                       DefaultDebuggee ds = Inr d) \<and>
                (\<forall>e. FindLatestMinorVersion by_module = Inl e \<longrightarrow>
                       DefaultDebuggee ds = Inl (PyError e)) \<and>
                (FindLatestMinorVersion by_module = Inr None \<longrightarrow>
                   (by_version = [] \<longrightarrow>
                      DefaultDebuggee ds = Inl (MultipleDebuggeesError None ds)) \<and>
                   (\<forall>d. by_version = [d] \<longrightarrow> DefaultDebuggee ds = Inr d) \<and>
                   (1 < length by_version \<longrightarrow>
                      (\<forall>d. FindLatestMinorVersion by_version = Inr (Some d) \<longrightarrow>
                             DefaultDebuggee ds = Inr d) \<and>
                      (\<forall>e. FindLatestMinorVersion by_version = Inl e \<longrightarrow>
                             DefaultDebuggee ds = Inl (PyError e)) \<and>
                      (FindLatestMinorVersion by_version = Inr None \<longrightarrow>
                             DefaultDebuggee ds = Inl (NoDebuggeeError None))))))))"
  unfolding Let_def
proof (intro conjI impI allI)
  show "DefaultDebuggee ds = Inl (NoDebuggeeError None)" if "ds = []"
    using that by (simp add: DefaultDebuggee_def)
  show "DefaultDebuggee ds = Inr d" if "ds = [d]" for d
    using that by (simp add: DefaultDebuggee_def)
next
  assume len: "1 < length ds"
  then have ds: "length ds \<noteq> 1" "ds \<noteq> []" by auto
  let ?bm = "filter (\<lambda>d. \<not> truthy (module d)) ds"
  let ?bv = "filter (\<lambda>d. \<not> truthy (version d)) ?bm"
  show "DefaultDebuggee ds = Inr d" if "FindLatestMinorVersion ds = Inr (Some d)" for d
    using that ds by (simp add: DefaultDebuggee_def)
  show "DefaultDebuggee ds = Inl (PyError e)" if "FindLatestMinorVersion ds = Inl e" for e
    using that ds by (simp add: DefaultDebuggee_def)
  assume l1: "FindLatestMinorVersion ds = Inr None"
  show "DefaultDebuggee ds = Inl (MultipleDebuggeesError None ds)" if "?bm = []"
    using that ds l1 by (simp add: DefaultDebuggee_def)
  show "DefaultDebuggee ds = Inr d" if "?bm = [d]" for d
    using that ds l1 by (simp add: DefaultDebuggee_def)
  assume len2: "1 < length ?bm"
  then have bm: "length ?bm \<noteq> 1" "?bm \<noteq> []" by auto
  show "DefaultDebuggee ds = Inr d" if "FindLatestMinorVersion ?bm = Inr (Some d)" for d
    using that ds l1 bm by (simp add: DefaultDebuggee_def)
  show "DefaultDebuggee ds = Inl (PyError e)" if "FindLatestMinorVersion ?bm = Inl e" for e
    using that ds l1 bm by (simp add: DefaultDebuggee_def)
  assume l2: "FindLatestMinorVersion ?bm = Inr None"
  show "DefaultDebuggee ds = Inl (MultipleDebuggeesError None ds)" if "?bv = []"
    using that ds l1 bm l2 by (simp add: DefaultDebuggee_def)
  show "DefaultDebuggee ds = Inr d" if "?bv = [d]" for d
    using that ds l1 bm l2 by (simp add: DefaultDebuggee_def)
  assume len3: "1 < length ?bv"
  then have bv: "length ?bv \<noteq> 1" "?bv \<noteq> []" by auto
  show "DefaultDebuggee ds = Inr d" if "FindLatestMinorVersion ?bv = Inr (Some d)" for d
    using that ds l1 bm l2 bv by (simp add: DefaultDebuggee_def)
  show "DefaultDebuggee ds = Inl (PyError e)" if "FindLatestMinorVersion ?bv = Inl e" for e
    using that ds l1 bm l2 bv by (simp add: DefaultDebuggee_def)
  show "DefaultDebuggee ds = Inl (NoDebuggeeError None)"
    if "FindLatestMinorVersion ?bv = Inr None"
    using that ds l1 bm l2 bv by (simp add: DefaultDebuggee_def)
qed


theorem DefaultDebuggee_steps_witness:
  "DefaultDebuggee
     [example_debuggee ''a'' Map.empty,
      example_debuggee ''b'' [''version'' \<mapsto> ''v2''],
      example_debuggee ''c'' [''module'' \<mapsto> ''m'']]
   = Inr (example_debuggee ''a'' Map.empty)"
proof -
  define a where "a = example_debuggee ''a'' Map.empty"
  define b where "b = example_debuggee ''b'' [''version'' \<mapsto> ''v2'']"
  define c where "c = example_debuggee ''c'' [''module'' \<mapsto> ''m'']"
  have l1: "FindLatestMinorVersion [a, b, c] = Inr None"
    by (simp add: a_def resolver_defs)
  have bm: "filter (\<lambda>d. \<not> truthy (module d)) [a, b, c] = [a, b]"
    by (simp add: a_def b_def c_def resolver_defs)
  have l2: "FindLatestMinorVersion [a, b] = Inr None"
    by (simp add: a_def resolver_defs)
  have bv: "filter (\<lambda>d. \<not> truthy (version d)) [a, b] = [a]"
    by (simp add: a_def b_def resolver_defs)
  have "DefaultDebuggee [a, b, c] = Inr a"
    using DefaultDebuggee_steps[of "[a, b, c]", unfolded Let_def bm bv] l1 l2
    by simp
  then show ?thesis by (simp add: a_def b_def c_def)
qed

text \<open>
  The claim as stated fails for an empty label: of two debuggees that both have a module
  label, one of them empty, the one with the empty label is returned, although no
  debuggee is without a module label.
\<close>

theorem DefaultDebuggee_empty_label_counterexample:
  "DefaultDebuggee
     [example_debuggee ''a'' [''module'' \<mapsto> []],
      example_debuggee ''b'' [''module'' \<mapsto> ''x'']]
   = Inr (example_debuggee ''a'' [''module'' \<mapsto> []]) \<and>
   FindLatestMinorVersion
     [example_debuggee ''a'' [''module'' \<mapsto> []],
      example_debuggee ''b'' [''module'' \<mapsto> ''x'']] = Inr None \<and>
   filter (\<lambda>d. labels d ''module'' = None)
     [example_debuggee ''a'' [''module'' \<mapsto> []],
      example_debuggee ''b'' [''module'' \<mapsto> ''x'']] = []"
  by (simp add: DefaultDebuggee_def resolver_defs)

lemma search_descriptions_result:
  "search_descriptions re_search match_re ds =
     (if \<exists>d\<in>set ds. description d = None then Inl TypeError
      else Inr (by_description re_search match_re ds))"
  by (induction ds) (auto simp: by_description_def split: option.splits)

text \<open>
  Claim C3, corrected. \<^verbatim>\<open>FindDebuggee\<close> with a non-empty pattern first compiles the
  pattern, and the error of a pattern that does not compile is raised whatever the
  debuggees are. Otherwise the candidates are the debuggees whose target ID is the
  pattern or whose name the pattern matches by search, and, when there are none, the
  debuggees whose description it matches; that second search raises \<^verbatim>\<open>TypeError\<close> when
  some debuggee has no description. One candidate is returned; none fails with
  \<^verbatim>\<open>NoDebuggeeError\<close> carrying the pattern; several are passed to
  \<^verbatim>\<open>_FindLatestMinorVersion\<close>: its exception is raised if it raises, its result is
  returned if it has one, and \<^verbatim>\<open>MultipleDebuggeesError\<close> carrying the pattern and all
  candidates is raised if it has none.
\<close>

theorem FindDebuggee_candidates:
  assumes "pattern \<noteq> []"
  shows
  "(\<forall>e. re_compile pattern = Inl e \<longrightarrow>
      FindDebuggee re_compile re_search ds (Some pattern) = Inl (PyError e)) \<and>
   (\<forall>match_re. re_compile pattern = Inr match_re \<longrightarrow>
      (let by_name = filter (\<lambda>d. target_id d = pattern \<or> re_search match_re (name d)) ds;
           undescribed = (by_name = [] \<and> (\<exists>d\<in>set ds. description d = None));
           candidates = (if by_name = [] then by_description re_search match_re ds
                         else by_name)
       in (undescribed \<longrightarrow>
             FindDebuggee re_compile re_search ds (Some pattern) = Inl (PyError TypeError)) \<and>
          (\<not> undescribed \<longrightarrow>
             (\<forall>d. candidates = [d] \<longrightarrow>
                FindDebuggee re_compile re_search ds (Some pattern) = Inr d) \<and>
             (candidates = [] \<longrightarrow>
                FindDebuggee re_compile re_search ds (Some pattern) =
                  Inl (NoDebuggeeError (Some pattern))) \<and>
             (1 < length candidates \<longrightarrow>
                (\<forall>e. FindLatestMinorVersion candidates = Inl e \<longrightarrow>
                   FindDebuggee re_compile re_search ds (Some pattern) = Inl (PyError e)) \<and>
                (\<forall>d. FindLatestMinorVersion candidates = Inr (Some d) \<longrightarrow>
                   FindDebuggee re_compile re_search ds (Some pattern) = Inr d) \<and>
                (FindLatestMinorVersion candidates = Inr None \<longrightarrow>
                   FindDebuggee re_compile re_search ds (Some pattern) =
                     Inl (MultipleDebuggeesError (Some pattern) candidates))))))"
proof (intro conjI allI impI)
  fix e
  assume "re_compile pattern = Inl e"
  with assms show "FindDebuggee re_compile re_search ds (Some pattern) = Inl (PyError e)"
    by (simp add: FindDebuggee_def)
next
  fix match_re
  assume rc: "re_compile pattern = Inr match_re"
  define by_name where
    "by_name = filter (\<lambda>d. target_id d = pattern \<or> re_search match_re (name d)) ds"
  define undescribed where
    "undescribed = (by_name = [] \<and> (\<exists>d\<in>set ds. description d = None))"
  define candidates where
    "candidates = (if by_name = [] then by_description re_search match_re ds else by_name)"
  have found: "(if by_name = [] then search_descriptions re_search match_re ds
                else Inr by_name) =
      (if undescribed then Inl TypeError else Inr candidates)"
    by (simp add: search_descriptions_result undescribed_def candidates_def)
  have F: "FindDebuggee re_compile re_search ds (Some pattern) =
     (if undescribed then Inl (PyError TypeError)
      else if length candidates = 1 then Inr (candidates ! 0)
      else if candidates = [] then Inl (NoDebuggeeError (Some pattern))
      else case FindLatestMinorVersion candidates of
             Inl e \<Rightarrow> Inl (PyError e)
           | Inr None \<Rightarrow> Inl (MultipleDebuggeesError (Some pattern) candidates)
           | Inr (Some best) \<Rightarrow> Inr best)"
  proof -
    have "FindDebuggee re_compile re_search ds (Some pattern) =
       (case (if by_name = [] then search_descriptions re_search match_re ds
              else Inr by_name) of
          Inl e \<Rightarrow> Inl (PyError e)
        | Inr debuggees \<Rightarrow>
            if length debuggees = 1 then Inr (debuggees ! 0)
            else if debuggees = [] then Inl (NoDebuggeeError (Some pattern))
            else case FindLatestMinorVersion debuggees of
                   Inl e \<Rightarrow> Inl (PyError e)
                 | Inr None \<Rightarrow> Inl (MultipleDebuggeesError (Some pattern) debuggees)
                 | Inr (Some best) \<Rightarrow> Inr best)"
      unfolding FindDebuggee_def Let_def by_name_def
      using assms rc by simp
    then show ?thesis
      unfolding found by (cases undescribed) simp_all
  qed
  have "(undescribed \<longrightarrow>
           FindDebuggee re_compile re_search ds (Some pattern) = Inl (PyError TypeError)) \<and>
        (\<not> undescribed \<longrightarrow>
           (\<forall>d. candidates = [d] \<longrightarrow>
              FindDebuggee re_compile re_search ds (Some pattern) = Inr d) \<and>
           (candidates = [] \<longrightarrow>
              FindDebuggee re_compile re_search ds (Some pattern) =
                Inl (NoDebuggeeError (Some pattern))) \<and>
           (1 < length candidates \<longrightarrow>
              (\<forall>e. FindLatestMinorVersion candidates = Inl e \<longrightarrow>
                 FindDebuggee re_compile re_search ds (Some pattern) = Inl (PyError e)) \<and>
              (\<forall>d. FindLatestMinorVersion candidates = Inr (Some d) \<longrightarrow>
                 FindDebuggee re_compile re_search ds (Some pattern) = Inr d) \<and>
              (FindLatestMinorVersion candidates = Inr None \<longrightarrow>
                 FindDebuggee re_compile re_search ds (Some pattern) =
                   Inl (MultipleDebuggeesError (Some pattern) candidates))))"
    unfolding F by auto
  then show "let by_name = filter (\<lambda>d. target_id d = pattern \<or> re_search match_re (name d)) ds;
           undescribed = (by_name = [] \<and> (\<exists>d\<in>set ds. description d = None));
           candidates = (if by_name = [] then by_description re_search match_re ds
                         else by_name)
       in (undescribed \<longrightarrow>
             FindDebuggee re_compile re_search ds (Some pattern) = Inl (PyError TypeError)) \<and>
          (\<not> undescribed \<longrightarrow>
             (\<forall>d. candidates = [d] \<longrightarrow>
                FindDebuggee re_compile re_search ds (Some pattern) = Inr d) \<and>
             (candidates = [] \<longrightarrow>
                FindDebuggee re_compile re_search ds (Some pattern) =
                  Inl (NoDebuggeeError (Some pattern))) \<and>
             (1 < length candidates \<longrightarrow>
                (\<forall>e. FindLatestMinorVersion candidates = Inl e \<longrightarrow>
                   FindDebuggee re_compile re_search ds (Some pattern) = Inl (PyError e)) \<and>
                (\<forall>d. FindLatestMinorVersion candidates = Inr (Some d) \<longrightarrow>
                   FindDebuggee re_compile re_search ds (Some pattern) = Inr d) \<and>
                (FindLatestMinorVersion candidates = Inr None \<longrightarrow>
                   FindDebuggee re_compile re_search ds (Some pattern) =
                     Inl (MultipleDebuggeesError (Some pattern) candidates))))"
    unfolding Let_def undescribed_def candidates_def by_name_def .
qed

theorem FindDebuggee_candidates_witness:
  "FindDebuggee example_compile literal_search
     [example_debuggee ''a'' [''module'' \<mapsto> ''svc'', ''minorversion'' \<mapsto> ''3''],
      example_debuggee ''b'' [''module'' \<mapsto> ''svc'', ''minorversion'' \<mapsto> ''7''],
      example_debuggee ''c'' [''module'' \<mapsto> ''web'']]
     (Some ''svc'')
   = Inr (example_debuggee ''b'' [''module'' \<mapsto> ''svc'', ''minorversion'' \<mapsto> ''7'']) \<and>
   FindDebuggee example_compile literal_search
     [example_debuggee ''a'' [''module'' \<mapsto> ''svc''],
      example_debuggee ''b'' [''module'' \<mapsto> ''svc'', ''version'' \<mapsto> ''v2''],
      example_debuggee ''c'' [''module'' \<mapsto> ''web'']]
     (Some ''svc'')
   = Inl (MultipleDebuggeesError (Some ''svc'')
     [example_debuggee ''a'' [''module'' \<mapsto> ''svc''],
      example_debuggee ''b'' [''module'' \<mapsto> ''svc'', ''version'' \<mapsto> ''v2'']]) \<and>
   FindDebuggee example_compile literal_search
     [example_debuggee ''a'' [''module'' \<mapsto> ''svc''],
      example_debuggee ''b'' [''module'' \<mapsto> ''web'']]
     (Some ''service b'')
   = Inr (example_debuggee ''b'' [''module'' \<mapsto> ''web'']) \<and>
   FindDebuggee example_compile literal_search
     [example_debuggee ''a('' [''module'' \<mapsto> ''svc'']]
     (Some ''a('')
   = Inl (PyError ReError) \<and>
   FindDebuggee example_compile literal_search
     [example_debuggee ''a'' [''module'' \<mapsto> ''svc'', ''minorversion'' \<mapsto> ''abc''],
      example_debuggee ''b'' [''module'' \<mapsto> ''svc'', ''minorversion'' \<mapsto> ''7'']]
     (Some ''svc'')
   = Inl (PyError ValueError) \<and>
   FindDebuggee example_compile literal_search
     [(example_debuggee ''a'' [''module'' \<mapsto> ''svc''])\<lparr>description := None\<rparr>,
      example_debuggee ''b'' [''module'' \<mapsto> ''web'']]
     (Some ''zzz'')
   = Inl (PyError TypeError) \<and>
   FindDebuggee example_compile literal_search
     [example_debuggee ''a'' [''module'' \<mapsto> ''svc''],
      example_debuggee ''b'' [''module'' \<mapsto> ''web'']]
     (Some ''zzz'')
   = Inl (NoDebuggeeError (Some ''zzz''))"
proof -
  define a where "a = example_debuggee ''a'' [''module'' \<mapsto> ''svc'', ''minorversion'' \<mapsto> ''3'']"
  define b where "b = example_debuggee ''b'' [''module'' \<mapsto> ''svc'', ''minorversion'' \<mapsto> ''7'']"
  define c where "c = example_debuggee ''c'' [''module'' \<mapsto> ''web'']"
  define a' where "a' = example_debuggee ''a'' [''module'' \<mapsto> ''svc'']"
  define b' where "b' = example_debuggee ''b'' [''module'' \<mapsto> ''svc'', ''version'' \<mapsto> ''v2'']"
  define b'' where "b'' = example_debuggee ''b'' [''module'' \<mapsto> ''web'']"
  define a'' where "a'' = example_debuggee ''a('' [''module'' \<mapsto> ''svc'']"
  have p: "''svc'' \<noteq> []" by simp
  have rc: "example_compile ''svc'' = Inr ''svc''" by (simp add: example_compile_def)
  have cands: "filter (\<lambda>d. target_id d = ''svc'' \<or> literal_search ''svc'' (name d)) [a, b, c]
      = [a, b]"
    by (simp add: a_def b_def c_def resolver_defs)
  have latest: "FindLatestMinorVersion [a, b] = Inr (Some b)"
    by (simp add: a_def b_def resolver_defs)
  have one: "FindDebuggee example_compile literal_search [a, b, c] (Some ''svc'') = Inr b"
    using FindDebuggee_candidates[where re_compile = example_compile and pattern = "''svc''"
        and re_search = literal_search and ds = "[a, b, c]",
        OF p, THEN conjunct2, rule_format, OF rc, unfolded Let_def cands] latest
    by simp
  have cands': "filter (\<lambda>d. target_id d = ''svc'' \<or> literal_search ''svc'' (name d)) [a', b', c]
      = [a', b']"
    by (simp add: a'_def b'_def c_def resolver_defs)
  have latest': "FindLatestMinorVersion [a', b'] = Inr None"
    by (simp add: a'_def b'_def resolver_defs)
  have two: "FindDebuggee example_compile literal_search [a', b', c] (Some ''svc'') =
      Inl (MultipleDebuggeesError (Some ''svc'') [a', b'])"
    using FindDebuggee_candidates[where re_compile = example_compile and pattern = "''svc''"
        and re_search = literal_search and ds = "[a', b', c]",
        OF p, THEN conjunct2, rule_format, OF rc, unfolded Let_def cands'] latest'
    by simp
  have p3: "''service b'' \<noteq> []" by simp
  have rc3: "example_compile ''service b'' = Inr ''service b''"
    by (simp add: example_compile_def)
  have cands3: "filter (\<lambda>d. target_id d = ''service b'' \<or> literal_search ''service b'' (name d))
      [a', b''] = []"
    by (simp add: a'_def b''_def resolver_defs)
  have descr3: "by_description literal_search ''service b'' [a', b''] = [b'']"
    by (simp add: by_description_def a'_def b''_def example_debuggee_def)
  have all3: "\<not> (\<exists>d\<in>set [a', b'']. description d = None)"
    by (simp add: a'_def b''_def example_debuggee_def)
  have three: "FindDebuggee example_compile literal_search [a', b''] (Some ''service b'') =
      Inr b''"
    using FindDebuggee_candidates[where re_compile = example_compile
        and pattern = "''service b''" and re_search = literal_search and ds = "[a', b'']",
        OF p3, THEN conjunct2, rule_format, OF rc3, unfolded Let_def cands3 descr3] all3
    by simp
  have p4: "''a('' \<noteq> []" by simp
  have rc4: "example_compile ''a('' = Inl ReError" by (simp add: example_compile_def)
  have four: "FindDebuggee example_compile literal_search [a''] (Some ''a('') =
      Inl (PyError ReError)"
    using FindDebuggee_candidates[where re_compile = example_compile and pattern = "''a(''"
        and re_search = literal_search and ds = "[a'']",
        OF p4, THEN conjunct1, rule_format, OF rc4] .
  define av where
    "av = example_debuggee ''a'' [''module'' \<mapsto> ''svc'', ''minorversion'' \<mapsto> ''abc'']"
  have cands5: "filter (\<lambda>d. target_id d = ''svc'' \<or> literal_search ''svc'' (name d)) [av, b]
      = [av, b]"
    by (simp add: av_def b_def resolver_defs)
  have latest5: "FindLatestMinorVersion [av, b] = Inl ValueError"
    by (simp add: av_def b_def resolver_defs)
  have five: "FindDebuggee example_compile literal_search [av, b] (Some ''svc'') =
      Inl (PyError ValueError)"
    using FindDebuggee_candidates[where re_compile = example_compile and pattern = "''svc''"
        and re_search = literal_search and ds = "[av, b]",
        OF p, THEN conjunct2, rule_format, OF rc, unfolded Let_def cands5] latest5
    by simp
  define an where "an = (example_debuggee ''a'' [''module'' \<mapsto> ''svc''])\<lparr>description := None\<rparr>"
  have p6: "''zzz'' \<noteq> []" by simp
  have rc6: "example_compile ''zzz'' = Inr ''zzz''" by (simp add: example_compile_def)
  have cands6: "filter (\<lambda>d. target_id d = ''zzz'' \<or> literal_search ''zzz'' (name d)) [an, b'']
      = []"
    by (simp add: an_def b''_def resolver_defs)
  have none6: "description an = None"
    by (simp add: an_def)
  have six: "FindDebuggee example_compile literal_search [an, b''] (Some ''zzz'') =
      Inl (PyError TypeError)"
    using FindDebuggee_candidates[where re_compile = example_compile and pattern = "''zzz''"
        and re_search = literal_search and ds = "[an, b'']",
        OF p6, THEN conjunct2, rule_format, OF rc6, unfolded Let_def cands6] none6
    by simp
  have cands7: "filter (\<lambda>d. target_id d = ''zzz'' \<or> literal_search ''zzz'' (name d)) [a', b'']
      = []"
    by (simp add: a'_def b''_def resolver_defs)
  have descr7: "by_description literal_search ''zzz'' [a', b''] = []"
    by (simp add: by_description_def a'_def b''_def example_debuggee_def)
  have seven: "FindDebuggee example_compile literal_search [a', b''] (Some ''zzz'') =
      Inl (NoDebuggeeError (Some ''zzz''))"
    using FindDebuggee_candidates[where re_compile = example_compile and pattern = "''zzz''"
        and re_search = literal_search and ds = "[a', b'']",
        OF p6, THEN conjunct2, rule_format, OF rc6, unfolded Let_def cands7 descr7] all3
    by simp
  from one two three four five six seven show ?thesis
    by (simp add: a_def b_def c_def a'_def b'_def b''_def a''_def av_def an_def)
qed

text \<open>
  The claim as first stated fails in three ways. Two candidates of one name whose
  minor-version labels are \<^verbatim>\<open>abc\<close> and \<^verbatim>\<open>7\<close>: the call raises \<^verbatim>\<open>ValueError\<close>; it neither
  returns a debuggee nor raises \<^verbatim>\<open>MultipleDebuggeesError\<close>. A pattern that matches no
  name, and debuggees without a description: the call raises \<^verbatim>\<open>TypeError\<close>, not
  \<^verbatim>\<open>NoDebuggeeError\<close>. The pattern \<^verbatim>\<open>a(\<close> and a debuggee whose target ID is \<^verbatim>\<open>a(\<close>: the
  call raises the error of \<^verbatim>\<open>re.compile\<close> and does not return the debuggee.
\<close>

theorem FindDebuggee_exceptions_counterexample:
  "FindDebuggee example_compile literal_search
     [example_debuggee ''a'' [''module'' \<mapsto> ''svc'', ''minorversion'' \<mapsto> ''abc''],
      example_debuggee ''b'' [''module'' \<mapsto> ''svc'', ''minorversion'' \<mapsto> ''7'']]
     (Some ''svc'')
   = Inl (PyError ValueError) \<and>
   FindDebuggee example_compile literal_search
     [(example_debuggee ''a'' [''module'' \<mapsto> ''svc''])\<lparr>description := None\<rparr>,
      (example_debuggee ''b'' [''module'' \<mapsto> ''web''])\<lparr>description := None\<rparr>]
     (Some ''zzz'')
   = Inl (PyError TypeError) \<and>
   FindDebuggee example_compile literal_search
     [example_debuggee ''a('' [''module'' \<mapsto> ''svc'']]
     (Some ''a('')
   = Inl (PyError ReError) \<and>
   target_id (example_debuggee ''a('' [''module'' \<mapsto> ''svc'']) = ''a(''"
  by (simp add: FindDebuggee_def example_compile_def resolver_defs)
section \<open>The result decorator\<close>

lemma getattr_missing: "(getattr md a = Inl e) = (e = AttributeError \<and> a \<notin> keys md)"
  by (auto simp: getattr_def keys_def split: option.splits)

lemma keys_store_field: "keys (store_field md f) = insert (fst f) (keys md)"
  by (auto simp: keys_def store_field_def)

lemma keys_foldl_store: "keys (foldl store_field md fs) = keys md \<union> fst ` set fs"
  by (induction fs arbitrary: md) (auto simp: keys_store_field)

lemma keys_setitem: "keys (setitem md k v) = insert k (keys md)"
  by (auto simp: keys_def setitem_def)

lemma keys_Hide: "keys (HideExistingField md k) = insert k (keys md)"
  by (auto simp: keys_def HideExistingField_def)

lemma getattr_store_other:
  "fst f \<noteq> k \<Longrightarrow> getattr (store_field md f) k = getattr md k"
  by (auto simp: getattr_def store_field_def split: option.splits)

lemma getattr_foldl_other:
  "k \<notin> fst ` set fs \<Longrightarrow> getattr (foldl store_field md fs) k = getattr md k"
  by (induction fs arbitrary: md) (auto simp: getattr_store_other)

lemma getattr_store_same:
  "dict_items md k = None \<Longrightarrow> getattr (store_field md (k, v)) k = Inr v"
  by (simp add: getattr_def store_field_def)

lemma dict_items_store_other:
  "fst f \<noteq> k \<Longrightarrow> dict_items (store_field md f) k = dict_items md k"
  by (simp add: store_field_def)

lemma getattr_foldl_field:
  "distinct (map fst fs) \<Longrightarrow> (k, v) \<in> set fs \<Longrightarrow> dict_items md k = None \<Longrightarrow>
   getattr (foldl store_field md fs) k = Inr v"
proof (induction fs arbitrary: md)
  case Nil
  then show ?case by simp
next
  case (Cons f fs)
  show ?case
  proof (cases "f = (k, v)")
    case True
    with Cons.prems have "k \<notin> fst ` set fs" by auto
    then show ?thesis
      using True Cons.prems(3) by (simp add: getattr_foldl_other getattr_store_same)
  next
    case False
    with Cons.prems have f: "fst f \<noteq> k" and mem: "(k, v) \<in> set fs" by (auto simp: rev_image_eqI)
    have "dict_items (store_field md f) k = None"
      using f Cons.prems(3) by (simp add: dict_items_store_other)
    from Cons.IH[OF _ mem this] Cons.prems(1) show ?thesis by simp
  qed
qed

lemma all_fields_names:
  "map fst (all_fields m) = [''action'', ''condition'', ''expressions'', ''id'',
     ''isFinalState'', ''labels'', ''location'', ''logLevel'', ''logMessageFormat'',
     ''userEmail'']"
  by (simp add: all_fields_def)

lemma distinct_all_fields: "distinct (map fst (all_fields m))"
  unfolding all_fields_names by simp

lemma keys_init:
  "keys (MessageDict_init m h) = dom h \<union> set (map fst (all_fields m))"
  unfolding MessageDict_init_def keys_foldl_store by (simp add: keys_def)

lemma getattr_init_field:
  "(k, v) \<in> set (all_fields m) \<Longrightarrow> getattr (MessageDict_init m h) k = Inr v"
  unfolding MessageDict_init_def
  by (rule getattr_foldl_field[OF distinct_all_fields]) simp_all

lemma getattr_init_hidden:
  "k \<notin> set (map fst (all_fields m)) \<Longrightarrow> h k = Some v \<Longrightarrow>
   getattr (MessageDict_init m h) k = Inr v"
  unfolding MessageDict_init_def
  by (simp add: getattr_foldl_other) (simp add: getattr_def)

lemma dom_target_info:
  "dom (target_info self) =
     {''project_id'', ''project_number'', ''target_uniquifier'', ''target_id''}"
  by (auto simp: target_info_def)

lemma DebugViewUrl_init:
  "\<exists>url. DebugViewUrl urlencode (MessageDict_init m (target_info self)) = Inr url"
proof -
  let ?md = "MessageDict_init m (target_info self)"
  have pn: "getattr ?md ''project_number'' = Inr (IntValue (project_number self))"
    by (rule getattr_init_hidden) (simp_all add: all_fields_names target_info_def)
  have tu: "getattr ?md ''target_uniquifier'' = Inr (StrValue (target_uniquifier self))"
    by (rule getattr_init_hidden) (simp_all add: all_fields_names target_info_def)
  have bid: "getattr ?md ''id'' = Inr (StrValue (bp_id m))"
    by (rule getattr_init_field) (simp add: all_fields_def)
  have loc: "getattr ?md ''location'' = Inr (optional LocationValue (location m))"
    by (rule getattr_init_field) (simp add: all_fields_def)
  show ?thesis
    unfolding DebugViewUrl_def pn tu bid loc bind_err_def
    by (cases "location m") (simp_all add: optional_def Let_def)
qed

lemma keys_add_location: "keys (add_location m md) \<subseteq> insert ''location'' (keys md)"
  by (auto simp: add_location_def keys_setitem split: option.splits)

lemma AddTargetInfo_Message:
  "\<exists>url. AddTargetInfo urlencode self (Message m) =
     (let result = add_location m
            (setitem (MessageDict_init m (target_info self)) ''consoleViewUrl'' (StrValue url))
      in if truthy (logMessageFormat m) then
           (case MergeLogExpressions (the (logMessageFormat m)) (bp_expressions m) of
              Inl e \<Rightarrow> Inl e
            | Inr text \<Rightarrow>
                Inr (HideExistingField (setitem result ''logMessageFormat'' (StrValue text))
                       ''expressions''))
         else Inr result)"
proof -
  obtain url where url:
    "DebugViewUrl urlencode (MessageDict_init m (target_info self)) = Inr url"
    using DebugViewUrl_init by blast
  have "AddTargetInfo urlencode self (Message m) =
     (let result = add_location m
            (setitem (MessageDict_init m (target_info self)) ''consoleViewUrl'' (StrValue url))
      in if truthy (logMessageFormat m) then
           (case MergeLogExpressions (the (logMessageFormat m)) (bp_expressions m) of
              Inl e \<Rightarrow> Inl e
            | Inr text \<Rightarrow>
                Inr (HideExistingField (setitem result ''logMessageFormat'' (StrValue text))
                       ''expressions''))
         else Inr result)"
    unfolding AddTargetInfo_def bp_object.case target_info_def[symmetric] Let_def url
      bind_err_def MergeLogExpressions_def add_location_def sum.case
    by (rule refl)
  then show ?thesis by blast
qed

lemma AddTargetInfo_error:
  "(AddTargetInfo urlencode self (Message m) = Inl e) =
   (truthy (logMessageFormat m) \<and>
    MergeLogExpressions (the (logMessageFormat m)) (bp_expressions m) = Inl e)"
proof -
  obtain url where "AddTargetInfo urlencode self (Message m) =
     (let result = add_location m
            (setitem (MessageDict_init m (target_info self)) ''consoleViewUrl'' (StrValue url))
      in if truthy (logMessageFormat m) then
           (case MergeLogExpressions (the (logMessageFormat m)) (bp_expressions m) of
              Inl e \<Rightarrow> Inl e
            | Inr text \<Rightarrow>
                Inr (HideExistingField (setitem result ''logMessageFormat'' (StrValue text))
                       ''expressions''))
         else Inr result)"
    using AddTargetInfo_Message by blast
  then show ?thesis
    by (cases "MergeLogExpressions (the (logMessageFormat m)) (bp_expressions m)")
       (auto simp: Let_def)
qed

lemma AddTargetInfo_keys:
  assumes "AddTargetInfo urlencode self (Message m) = Inr md"
  shows "''all_fields'' \<notin> keys md"
proof -
  obtain url where A: "AddTargetInfo urlencode self (Message m) =
     (let result = add_location m
            (setitem (MessageDict_init m (target_info self)) ''consoleViewUrl'' (StrValue url))
      in if truthy (logMessageFormat m) then
           (case MergeLogExpressions (the (logMessageFormat m)) (bp_expressions m) of
              Inl e \<Rightarrow> Inl e
            | Inr text \<Rightarrow>
                Inr (HideExistingField (setitem result ''logMessageFormat'' (StrValue text))
                       ''expressions''))
         else Inr result)"
    using AddTargetInfo_Message by blast
  define r where "r = add_location m
            (setitem (MessageDict_init m (target_info self)) ''consoleViewUrl'' (StrValue url))"
  have "keys r \<subseteq> insert ''location'' (insert ''consoleViewUrl''
          (dom (target_info self) \<union> set (map fst (all_fields m))))"
  proof -
    have "keys r \<subseteq> insert ''location'' (keys (setitem (MessageDict_init m (target_info self))
            ''consoleViewUrl'' (StrValue url)))"
      unfolding r_def by (rule keys_add_location)
    then show ?thesis by (simp add: keys_setitem keys_init)
  qed
  then have r: "''all_fields'' \<notin> keys r"
    unfolding dom_target_info all_fields_names by auto
  have "md = r \<or> (\<exists>text. md = HideExistingField
           (setitem r ''logMessageFormat'' (StrValue text)) ''expressions'')"
    using assms unfolding A r_def[symmetric] Let_def
    by (auto split: if_splits sum.splits)
  with r show ?thesis by (auto simp: keys_Hide keys_setitem)
qed

lemma AddTargetInfo_Wrapped:
  assumes "AddTargetInfo urlencode self (Message m) = Inr md"
  shows "AddTargetInfo urlencode self' (Wrapped md) = Inl AttributeError"
proof -
  have "getattr md ''all_fields'' = Inl AttributeError"
    using AddTargetInfo_keys[OF assms] by (simp add: getattr_missing)
  then show ?thesis by (simp add: AddTargetInfo_def bind_err_def)
qed

section \<open>Where MergeLogExpressions raises\<close>

lemma segments_ok:
  "CHR ''{'' \<notin> set s \<Longrightarrow> CHR ''}'' \<notin> set s \<Longrightarrow> list_all seg_ok (segments s)"
proof (induction s rule: segments.induct)
  case 1
  then show ?case by simp
next
  case (2 c cs)
  show ?case
  proof (cases "c = CHR ''$'' \<and> takeWhile isdigit cs \<noteq> []")
    case True
    have "set (dropWhile isdigit cs) \<subseteq> set cs" by (rule set_dropWhileD[THEN subsetI])
    with "2.prems" have "CHR ''{'' \<notin> set (dropWhile isdigit cs)"
      "CHR ''}'' \<notin> set (dropWhile isdigit cs)" by auto
    from "2.IH"(1)[OF True this] True show ?thesis
      by (auto simp: list_all_iff dest: set_takeWhileD)
  next
    case False
    with "2.IH"(2)[OF False] "2.prems" show ?thesis by auto
  qed
qed

lemma format_field_ok:
  assumes "ds \<noteq> []" "list_all isdigit ds"
  shows "format_field ds args =
     (if nat_of_digits ds < length args then Inr (args ! nat_of_digits ds)
      else if PY_SSIZE_T_MAX < nat_of_digits ds then Inl ValueError else Inl IndexError)"
  using assms by (simp add: format_field_def Let_def)

lemma subst_segments_error:
  assumes "list_all seg_ok segs"
  shows "((\<exists>e. subst_segments args segs = Inl e) =
          (\<exists>n\<in>set (token_indices_of segs). length args \<le> n)) \<and>
         (\<forall>e. subst_segments args segs = Inl e \<longrightarrow> e = IndexError \<or> e = ValueError)"
  using assms
proof (induction segs)
  case Nil
  then show ?case by simp
next
  case (Cons seg segs)
  then have IH: "((\<exists>e. subst_segments args segs = Inl e) =
          (\<exists>n\<in>set (token_indices_of segs). length args \<le> n))"
     "\<forall>e. subst_segments args segs = Inl e \<longrightarrow> e = IndexError \<or> e = ValueError"
    by auto
  show ?case
  proof (cases seg)
    case (Text c)
    with IH show ?thesis by (cases "subst_segments args segs") auto
  next
    case (Token ds)
    with Cons.prems have ds: "ds \<noteq> []" "list_all isdigit ds" by auto
    note ff = format_field_ok[OF ds, of args]
    show ?thesis
    proof (cases "nat_of_digits ds < length args")
      case True
      with IH Token ff show ?thesis by (cases "subst_segments args segs") auto
    next
      case False
      with Token ff show ?thesis by auto
    qed
  qed
qed

lemma Merge_brace_free:
  assumes "CHR ''{'' \<notin> set fmt" "CHR ''}'' \<notin> set fmt"
  shows "MergeLogExpressions fmt exprs = subst_segments exprs (segments fmt)"
  unfolding MergeLogExpressions_def re_sub_tokens_def
  by (rule format_segments[OF segments_ok[OF assms]])

lemma format_prefix:
  "list_all seg_ok segs \<Longrightarrow>
   format_str (concat (map replace_segment segs) @ r) args =
     (case subst_segments args segs of
        Inl e \<Rightarrow> Inl e
      | Inr v \<Rightarrow> map_sum id ((@) v) (format_str r args))"
proof (induction segs)
  case Nil
  show ?case by (cases "format_str r args") auto
next
  case (Cons seg segs)
  then have IH: "format_str (concat (map replace_segment segs) @ r) args =
     (case subst_segments args segs of
        Inl e \<Rightarrow> Inl e
      | Inr v \<Rightarrow> map_sum id ((@) v) (format_str r args))" by simp
  show ?case
  proof (cases seg)
    case (Text c)
    with Cons.prems have c: "c \<noteq> CHR ''{''" "c \<noteq> CHR ''}''" by auto
    show ?thesis
      using Text format_text[OF c, of "concat (map replace_segment segs) @ r" args] IH
      by (cases "subst_segments args segs"; cases "format_str r args")
         (simp_all del: format_str.simps)
  next
    case (Token ds)
    with Cons.prems have ds: "ds \<noteq> []" "list_all isdigit ds" by auto
    show ?thesis
      using Token format_token[OF ds, of "concat (map replace_segment segs) @ r" args] IH
      by (cases "format_field ds args"; cases "subst_segments args segs";
          cases "format_str r args")
         (simp_all del: format_str.simps)
  qed
qed

lemma takeWhile_append_stop:
  "\<not> P c \<Longrightarrow> takeWhile P (xs @ c # ys) = takeWhile P xs"
  by (induction xs) auto

lemma dropWhile_append_stop:
  "\<not> P c \<Longrightarrow> dropWhile P (xs @ c # ys) = dropWhile P xs @ c # ys"
  by (induction xs) auto

lemma segments_append_stop:
  "\<not> isdigit c \<Longrightarrow> segments (p @ c # q) = segments p @ segments (c # q)"
proof (induction p rule: segments.induct)
  case 1
  then show ?case by simp
next
  case (2 x xs)
  show ?case
  proof (cases "x = CHR ''$'' \<and> takeWhile isdigit xs \<noteq> []")
    case True
    from "2.IH"(1)[OF True "2.prems"] True "2.prems" show ?thesis
      by (simp add: takeWhile_append_stop dropWhile_append_stop del: segments.simps(2))
         (simp add: takeWhile_append_stop dropWhile_append_stop)
  next
    case False
    from "2.IH"(2)[OF False "2.prems"] False "2.prems" show ?thesis
      by (auto simp: takeWhile_append_stop)
  qed
qed

lemma re_sub_append_brace:
  assumes "c = CHR ''{'' \<or> c = CHR ''}''"
  shows "re_sub_tokens (p @ c # q) = re_sub_tokens p @ c # re_sub_tokens q"
proof -
  have d: "\<not> isdigit c" using assms by (auto simp: isdigit_def)
  have "segments (c # q) = Text c # segments q" using assms by auto
  with segments_append_stop[OF d, of p q] show ?thesis
    by (simp add: re_sub_tokens_def)
qed

lemma re_sub_hd:
  "q = [] \<or> hd q \<noteq> CHR ''}'' \<Longrightarrow>
   re_sub_tokens q = [] \<or> hd (re_sub_tokens q) \<noteq> CHR ''}''"
  by (cases q) (auto simp: re_sub_tokens_def)

lemma format_single_close:
  "r = [] \<or> hd r \<noteq> CHR ''}'' \<Longrightarrow> format_str (CHR ''}'' # r) args = Inl ValueError"
  by (cases r) auto

lemma Merge_stray_close:
  assumes "CHR ''{'' \<notin> set fmt" "CHR ''}'' \<notin> set fmt" "q = [] \<or> hd q \<noteq> CHR ''}''"
  shows "\<exists>e. MergeLogExpressions (fmt @ ''}'' @ q) exprs = Inl e \<and>
             (e = ValueError \<or> e = IndexError)"
proof -
  note ok = segments_ok[OF assms(1,2)]
  have M: "MergeLogExpressions (fmt @ ''}'' @ q) exprs =
     (case subst_segments exprs (segments fmt) of
        Inl e \<Rightarrow> Inl e
      | Inr v \<Rightarrow> map_sum id ((@) v) (format_str (CHR ''}'' # re_sub_tokens q) exprs))"
  proof -
    have "re_sub_tokens (fmt @ ''}'' @ q) =
        concat (map replace_segment (segments fmt)) @ (CHR ''}'' # re_sub_tokens q)"
      using re_sub_append_brace[of "CHR ''}''" fmt q]
      by (simp add: re_sub_tokens_def[of fmt])
    then show ?thesis
      unfolding MergeLogExpressions_def by (simp only: format_prefix[OF ok])
  qed
  have close: "format_str (CHR ''}'' # re_sub_tokens q) exprs = Inl ValueError"
    by (rule format_single_close[OF re_sub_hd[OF assms(3)]])
  show ?thesis
  proof (cases "subst_segments exprs (segments fmt)")
    case (Inl e)
    with subst_segments_error[OF ok, of exprs] M show ?thesis by auto
  next
    case (Inr v)
    with M close show ?thesis by simp
  qed
qed

lemma Merge_stray_open:
  assumes "CHR ''{'' \<notin> set fmt" "CHR ''}'' \<notin> set fmt"
  shows "\<exists>e. MergeLogExpressions (fmt @ ''{'') exprs = Inl e \<and>
             (e = ValueError \<or> e = IndexError)"
proof -
  note ok = segments_ok[OF assms(1,2)]
  have M: "MergeLogExpressions (fmt @ ''{'') exprs =
     (case subst_segments exprs (segments fmt) of
        Inl e \<Rightarrow> Inl e
      | Inr v \<Rightarrow> map_sum id ((@) v) (format_str ''{'' exprs))"
  proof -
    have "re_sub_tokens (fmt @ ''{'') = concat (map replace_segment (segments fmt)) @ ''{''"
      using re_sub_append_brace[of "CHR ''{''" fmt "[]"]
      by (simp add: re_sub_tokens_def)
    then show ?thesis
      unfolding MergeLogExpressions_def by (simp only: format_prefix[OF ok])
  qed
  show ?thesis
  proof (cases "subst_segments exprs (segments fmt)")
    case (Inl e)
    with subst_segments_error[OF ok, of exprs] M show ?thesis by auto
  next
    case (Inr v)
    with M show ?thesis by simp
  qed
qed

text \<open>
  Claim C10, as amended. \<^verbatim>\<open>MergeLogExpressions\<close> is partial. For a format without
  brace characters it raises exactly when some \<^verbatim>\<open>$N\<close> token has \<open>N \<ge> len(expressions)\<close>,
  and then \<^verbatim>\<open>IndexError\<close> or \<^verbatim>\<open>ValueError\<close>; such a format followed by one closing
  brace that is not doubled raises, whatever comes after, and so does such a format
  followed by one opening brace at its end. \<^verbatim>\<open>AddTargetInfo\<close> raises on a message
  exactly when its log message format is not empty and the merge of that format with
  the message's expressions raises, with the same exception.
\<close>

theorem Merge_partial:
  "(CHR ''{'' \<notin> set fmt \<and> CHR ''}'' \<notin> set fmt \<longrightarrow>
      ((\<exists>e. MergeLogExpressions fmt exprs = Inl e) =
       (\<exists>n\<in>set (token_indices fmt). length exprs \<le> n)) \<and>
      (\<forall>e. MergeLogExpressions fmt exprs = Inl e \<longrightarrow> e = IndexError \<or> e = ValueError) \<and>
      (\<forall>q. q = [] \<or> hd q \<noteq> CHR ''}'' \<longrightarrow>
         (\<exists>e. MergeLogExpressions (fmt @ ''}'' @ q) exprs = Inl e \<and>
              (e = ValueError \<or> e = IndexError))) \<and>
      (\<exists>e. MergeLogExpressions (fmt @ ''{'') exprs = Inl e \<and>
           (e = ValueError \<or> e = IndexError))) \<and>
   (\<forall>e. (AddTargetInfo urlencode self (Message m) = Inl e) =
        (truthy (logMessageFormat m) \<and>
         MergeLogExpressions (the (logMessageFormat m)) (bp_expressions m) = Inl e))"
proof (intro conjI impI allI)
  assume "CHR ''{'' \<notin> set fmt \<and> CHR ''}'' \<notin> set fmt"
  then have b: "CHR ''{'' \<notin> set fmt" "CHR ''}'' \<notin> set fmt" by auto
  note se = subst_segments_error[OF segments_ok[OF b], of exprs]
  show "(\<exists>e. MergeLogExpressions fmt exprs = Inl e) =
       (\<exists>n\<in>set (token_indices fmt). length exprs \<le> n)"
    using se by (simp add: Merge_brace_free[OF b] token_indices_def)
  show "e = IndexError \<or> e = ValueError" if "MergeLogExpressions fmt exprs = Inl e" for e
    using se that by (simp add: Merge_brace_free[OF b])
  show "\<exists>e. MergeLogExpressions (fmt @ ''}'' @ q) exprs = Inl e \<and>
              (e = ValueError \<or> e = IndexError)" if "q = [] \<or> hd q \<noteq> CHR ''}''" for q
    by (rule Merge_stray_close[OF b that])
  show "\<exists>e. MergeLogExpressions (fmt @ ''{'') exprs = Inl e \<and>
           (e = ValueError \<or> e = IndexError)"
    by (rule Merge_stray_open[OF b])
next
  fix e
  show "(AddTargetInfo urlencode self (Message m) = Inl e) =
        (truthy (logMessageFormat m) \<and>
         MergeLogExpressions (the (logMessageFormat m)) (bp_expressions m) = Inl e)"
    by (rule AddTargetInfo_error)
qed

lemmas merge_defs = MergeLogExpressions_def re_sub_tokens_def format_field_def isdigit_def
  nat_of_digits_def digit_val_def PY_SSIZE_T_MAX_def token_indices_def

theorem Merge_partial_witness:
  "MergeLogExpressions ''x=$1'' [''a''] = Inl IndexError \<and>
   MergeLogExpressions ''x=$0}'' [''a''] = Inl ValueError \<and>
   AddTargetInfo example_urlencode (example_debuggee ''t'' Map.empty)
     (Message ((example_breakpoint ''b'')\<lparr>logMessageFormat := Some ''x=$1'',
                                          bp_expressions := [''a'']\<rparr>)) = Inl IndexError \<and>
   AddTargetInfo example_urlencode (example_debuggee ''t'' Map.empty)
     (Message ((example_breakpoint ''b'')\<lparr>logMessageFormat := Some ''x=$0}'',
                                          bp_expressions := [''a'']\<rparr>)) = Inl ValueError"
proof -
  let ?m1 = "(example_breakpoint ''b'')\<lparr>logMessageFormat := Some ''x=$1'',
                                          bp_expressions := [''a'']\<rparr>"
  let ?m2 = "(example_breakpoint ''b'')\<lparr>logMessageFormat := Some ''x=$0}'',
                                          bp_expressions := [''a'']\<rparr>"
  have b: "CHR ''{'' \<notin> set ''x=$1'' \<and> CHR ''}'' \<notin> set ''x=$1''" by simp
  have t: "\<exists>n\<in>set (token_indices ''x=$1''). length [''a''] \<le> n"
    by (simp add: merge_defs)
  have m1: "MergeLogExpressions ''x=$1'' [''a''] = Inl IndexError"
    by (simp add: merge_defs)
  have m2: "MergeLogExpressions ''x=$0}'' [''a''] = Inl ValueError"
    by (simp add: merge_defs)
  have "\<exists>e. MergeLogExpressions ''x=$1'' [''a''] = Inl e"
    using Merge_partial[of "''x=$1''" "[''a'']"] b t by blast
  have a1: "AddTargetInfo example_urlencode (example_debuggee ''t'' Map.empty) (Message ?m1)
      = Inl IndexError"
    using Merge_partial[of "''x=$1''" "[''a'']" example_urlencode
        "example_debuggee ''t'' Map.empty" ?m1] m1
    by simp
  have a2: "AddTargetInfo example_urlencode (example_debuggee ''t'' Map.empty) (Message ?m2)
      = Inl ValueError"
    using Merge_partial[of "''x=$1''" "[''a'']" example_urlencode
        "example_debuggee ''t'' Map.empty" ?m2] m2
    by simp
  from m1 m2 a1 a2 show ?thesis by simp
qed

text \<open>
  The claim as stated fails: a doubled brace is an escape of \<^verbatim>\<open>format\<close>, so two
  unmatched closing braces raise nothing; and a token between braces is read as text
  between escaped braces, so its index is never looked up.
\<close>

theorem Merge_escapes_counterexample:
  "MergeLogExpressions ''}}'' [] = Inr ''}'' \<and>
   MergeLogExpressions ''{$5}'' [] = Inr ''{{5}}'' \<and>
   token_indices ''{$5}'' = [5] \<and>
   \<not> (5::nat) < length ([] :: string list)"
  by (simp add: merge_defs)

section \<open>Listing breakpoints by ID\<close>

lemma example_id: "BREAKPOINT_ID_PATTERN ''1234567890123-abcd-1''"
  by (simp add: BREAKPOINT_ID_PATTERN_def is_hex_def)

lemma GetBreakpoint_example:
  "\<exists>md. GetBreakpoint urlencode (example_service listed) self i = Inr md \<and>
        AddTargetInfo urlencode self (Message (example_breakpoint i)) = Inr md"
proof -
  have "\<not> truthy (logMessageFormat (example_breakpoint i))"
    by (simp add: example_breakpoint_def)
  then have "\<forall>e. AddTargetInfo urlencode self (Message (example_breakpoint i)) \<noteq> Inl e"
    by (simp add: AddTargetInfo_error)
  then obtain md where "AddTargetInfo urlencode self (Message (example_breakpoint i)) = Inr md"
    by (cases "AddTargetInfo urlencode self (Message (example_breakpoint i))") auto
  then show ?thesis
    by (simp add: GetBreakpoint_def example_service_def bind_err_def)
qed

text \<open>
  What \<^verbatim>\<open>ListMatchingBreakpoints\<close> fetches by ID has been converted by
  \<^verbatim>\<open>GetBreakpoint\<close>, and the final conversion of the result list raises on it: with no
  restriction on the type, a call that asks for an ID absent from the listing never
  returns a list.
\<close>

lemma fetch_missing_returns:
  "fetch_missing urlencode svc self missing calls result = (calls', Inr objs) \<Longrightarrow>
   calls' = calls @ map GetCall missing \<and>
   (\<exists>mds. objs = result @ map Wrapped mds \<and> length mds = length missing \<and>
      (\<forall>md\<in>set mds. \<exists>m. AddTargetInfo urlencode self (Message m) = Inr md))"
proof (induction missing arbitrary: calls result)
  case Nil
  then show ?case by simp
next
  case (Cons i missing)
  from Cons.prems obtain md where
    g: "GetBreakpoint urlencode svc self i = Inr md" and
    rest: "fetch_missing urlencode svc self missing (calls @ [GetCall i]) (result @ [Wrapped md])
       = (calls', Inr objs)"
    by (auto split: sum.splits)
  from g obtain m where m: "AddTargetInfo urlencode self (Message m) = Inr md"
    by (auto simp: GetBreakpoint_def bind_err_def split: sum.splits)
  from Cons.IH[OF rest] obtain mds where
    r: "calls' = (calls @ [GetCall i]) @ map GetCall missing"
       "objs = (result @ [Wrapped md]) @ map Wrapped mds" "length mds = length missing"
       "\<forall>md\<in>set mds. \<exists>m. AddTargetInfo urlencode self (Message m) = Inr md"
    by blast
  have "objs = result @ map Wrapped (md # mds) \<and> length (md # mds) = length (i # missing) \<and>
      (\<forall>md\<in>set (md # mds). \<exists>m. AddTargetInfo urlencode self (Message m) = Inr md)"
    using r m by auto
  with r(1) show ?case by (intro conjI exI[of _ "md # mds"]) simp_all
qed

lemma Filtered_wrapped_raises:
  assumes "Wrapped md \<in> set objs" "AddTargetInfo urlencode self (Message m) = Inr md"
  shows "\<exists>e. FilteredDictListWithInfo urlencode self objs None = Inl e"
  using assms(1)
proof (induction objs)
  case Nil
  then show ?case by simp
next
  case (Cons r objs)
  show ?case
  proof (cases "AddTargetInfo urlencode self r")
    case (Inl e)
    then show ?thesis by (simp add: keep_type_def bind_err_def)
  next
    case (Inr x)
    with AddTargetInfo_Wrapped[OF assms(2), of self] have "r \<noteq> Wrapped md" by auto
    with Cons.prems have "Wrapped md \<in> set objs" by simp
    from Cons.IH[OF this] obtain e where
      "FilteredDictListWithInfo urlencode self objs None = Inl e" by blast
    with Inr show ?thesis by (simp add: keep_type_def bind_err_def)
  qed
qed

lemma ListMatching_missing_id_never_returned:
  assumes "initialized svc"
    and "list_response svc include_all_users include_inactive = Inr breakpoints"
    and "BREAKPOINT_ID_PATTERN i" and "i \<in> set location_regexp_or_ids"
    and "i \<notin> bp_id ` set breakpoints"
  shows "\<exists>calls e. ListMatchingBreakpoints re_compile re_search urlencode svc self
           location_regexp_or_ids include_all_users include_inactive None = (calls, Inl e)"
proof -
  define ids where "ids = remdups (filter BREAKPOINT_ID_PATTERN location_regexp_or_ids)"
  have i: "i \<in> set ids" using assms(3,4) by (simp add: ids_def)
  show ?thesis
  proof (cases "compile_all re_compile
                  (remdups (filter (\<lambda>p. p \<notin> set ids) location_regexp_or_ids))")
    case (Inl e)
    then show ?thesis
      using assms(1) by (simp add: ListMatchingBreakpoints_def ids_def[symmetric])
  next
    case (Inr patterns)
    define result where
      "result = filter (\<lambda>bp. MatchesIdOrRegexp re_search bp ids patterns) breakpoints"
    define missing where "missing = filter (\<lambda>i. i \<notin> set (map bp_id result)) ids"
    have "i \<notin> set (map bp_id result)" using assms(5) by (auto simp: result_def)
    with i have im: "i \<in> set missing" by (simp add: missing_def)
    obtain calls r where f: "fetch_missing urlencode svc self missing
        [ListCall include_all_users include_inactive] (map Message result) = (calls, r)"
      by (cases "fetch_missing urlencode svc self missing
        [ListCall include_all_users include_inactive] (map Message result)") auto
    have L: "ListMatchingBreakpoints re_compile re_search urlencode svc self
           location_regexp_or_ids include_all_users include_inactive None =
        (case r of Inl e \<Rightarrow> (calls, Inl e)
         | Inr objs \<Rightarrow> (calls, FilteredDictListWithInfo urlencode self objs None))"
      unfolding ListMatchingBreakpoints_def ids_def[symmetric] Let_def
      using assms(1,2) Inr f[unfolded missing_def]
      by (cases r) (simp_all add: result_def[symmetric])
    show ?thesis
    proof (cases r)
      case (Inl e)
      with L show ?thesis by simp
    next
      case (Inr objs)
      from fetch_missing_returns[OF f[unfolded Inr]] obtain mds where
        mds: "objs = map Message result @ map Wrapped mds" "length mds = length missing"
          "\<forall>md\<in>set mds. \<exists>m. AddTargetInfo urlencode self (Message m) = Inr md"
        by blast
      from im mds(2) obtain md where md: "md \<in> set mds" by (cases mds) auto
      with mds(3) obtain m where m: "AddTargetInfo urlencode self (Message m) = Inr md"
        by blast
      have "Wrapped md \<in> set objs" using md mds(1) by simp
      from Filtered_wrapped_raises[OF this m] L Inr show ?thesis by auto
    qed
  qed
qed

text \<open>
  Claim C5 fails on the code. The listing is empty and one exact ID is asked for; the
  service has the breakpoint. \<^verbatim>\<open>ListMatchingBreakpoints\<close> makes one \<^verbatim>\<open>List\<close> call and one
  \<^verbatim>\<open>Get\<close> call for the ID, and then raises \<^verbatim>\<open>AttributeError\<close>: \<^verbatim>\<open>GetBreakpoint\<close> has
  already converted the breakpoint with \<^verbatim>\<open>AddTargetInfo\<close>, and
  \<^verbatim>\<open>_FilteredDictListWithInfo\<close> converts it again.
\<close>

theorem ListMatching_missing_id_raises:
  "\<forall>re_compile re_search urlencode self.
     ListMatchingBreakpoints re_compile re_search urlencode (example_service []) self
       [''1234567890123-abcd-1''] False False None
     = ([ListCall False False, GetCall ''1234567890123-abcd-1''], Inl AttributeError)"
proof (intro allI)
  fix re_compile :: "string \<Rightarrow> py_error + 'r" and re_search :: "'r \<Rightarrow> string \<Rightarrow> bool"
    and urlencode :: "(string \<times> field_value) list \<Rightarrow> string" and self :: debuggee
  define i where "i = ''1234567890123-abcd-1''"
  define svc where "svc = example_service []"
  have svc: "initialized svc" "list_response svc False False = Inr []"
    by (simp_all add: svc_def example_service_def)
  have ids: "remdups (filter BREAKPOINT_ID_PATTERN [i]) = [i]"
    using example_id by (simp add: i_def)
  obtain md where md: "GetBreakpoint urlencode svc self i = Inr md"
    "AddTargetInfo urlencode self (Message (example_breakpoint i)) = Inr md"
    using GetBreakpoint_example[of urlencode "[]" self i] unfolding svc_def by blast
  have fetch: "fetch_missing urlencode svc self [i] [ListCall False False] [] =
      ([ListCall False False, GetCall i], Inr [Wrapped md])"
    by (simp add: md(1))
  have filt: "FilteredDictListWithInfo urlencode self [Wrapped md] None = Inl AttributeError"
    by (simp add: keep_type_def bind_err_def AddTargetInfo_Wrapped[OF md(2)])
  have "ListMatchingBreakpoints re_compile re_search urlencode svc self [i] False False None
     = ([ListCall False False, GetCall i], Inl AttributeError)"
    unfolding ListMatchingBreakpoints_def ids Let_def
    using svc fetch filt by simp
  then show "ListMatchingBreakpoints re_compile re_search urlencode (example_service []) self
       [''1234567890123-abcd-1''] False False None
     = ([ListCall False False, GetCall ''1234567890123-abcd-1''], Inl AttributeError)"
    by (simp add: i_def svc_def)
qed

text \<open>
  Claim C6 fails on the code. The pattern of the code takes a third segment of any
  length: an ID whose third segment has nine digits is classified as an ID, which the
  pattern of the claim excludes. On the two examples of the claim they agree.
\<close>

theorem BREAKPOINT_ID_PATTERN_long_third_segment:
  "BREAKPOINT_ID_PATTERN ''1234567890123-abcd-123456789'' \<and>
   \<not> claimed_id_pattern ''1234567890123-abcd-123456789'' \<and>
   BREAKPOINT_ID_PATTERN ''1234567890123-abcd-1'' \<and>
   claimed_id_pattern ''1234567890123-abcd-1'' \<and>
   \<not> BREAKPOINT_ID_PATTERN ''xyz-abcd-1'' \<and>
   \<not> claimed_id_pattern ''xyz-abcd-1''"
  by (simp add: BREAKPOINT_ID_PATTERN_def claimed_id_pattern_def is_hex_def)

end
